(* ===== verification/Prelude.thy ===== *)
theory Prelude
  imports Main "HOL-Library.Word"
begin

unbundle bit_operations_syntax

text \<open>
  Shared vocabulary of the development: bytes and buffers, the return codes of nginx as
  datatypes, big-endian reads and writes, and the generic list facts that the component
  theories use. A C buffer \<open>u_char *p\<close> with \<open>n\<close> readable bytes is a list of
  \<open>n\<close> bytes; a read of \<open>p[i]\<close> is \<open>p ! i\<close> under a guard that \<open>i\<close> is in range.
\<close>

section \<open>Bytes, buffers and return codes\<close>

type_synonym byte = "8 word"
type_synonym buffer = "byte list"

text \<open>
  The return codes of nginx (\<open>NGX_OK\<close> and so on), and the outcome of a parser that fills
  an out-parameter only when it returns \<open>NGX_OK\<close>.
\<close>

datatype rc = NGX_OK | NGX_ERROR | NGX_AGAIN | NGX_BUSY | NGX_DONE | NGX_DECLINED

datatype 'a parsed = P_ok 'a | P_again | P_error

text \<open>A C string literal as bytes.\<close>

definition bytes_of :: "string \<Rightarrow> buffer" where
  "bytes_of s = map of_char s"

lemma length_bytes_of [simp]: "length (bytes_of s) = length s"
  by (simp add: bytes_of_def)

lemma bytes_of_Nil [simp]: "bytes_of [] = []"
  by (simp add: bytes_of_def)

lemma bytes_of_Cons: "bytes_of (c # s) = of_char c # bytes_of s"
  by (simp add: bytes_of_def)

section \<open>Big-endian integers\<close>

text \<open>
  \<open>(uint16_t) ((p[0] << 8) | p[1])\<close>, as it stands in the frame parser, the
  authentication code and the SOCKS address parser.
\<close>

definition be16 :: "byte \<Rightarrow> byte \<Rightarrow> 16 word" where
  "be16 hi lo = push_bit 8 (ucast hi) OR ucast lo"

definition be32 :: "byte \<Rightarrow> byte \<Rightarrow> byte \<Rightarrow> byte \<Rightarrow> 32 word" where
  "be32 a b c d =
     (push_bit 24 (ucast a) OR push_bit 16 (ucast b)) OR push_bit 8 (ucast c) OR ucast d"

definition put16 :: "16 word \<Rightarrow> buffer" where
  "put16 w = [ucast (drop_bit 8 w), ucast w]"

definition put32 :: "32 word \<Rightarrow> buffer" where
  "put32 w = [ucast (drop_bit 24 w), ucast (drop_bit 16 w), ucast (drop_bit 8 w), ucast w]"

lemma length_put16 [simp]: "length (put16 w) = 2"
  by (simp add: put16_def)

lemma length_put32 [simp]: "length (put32 w) = 4"
  by (simp add: put32_def)

lemma be16_put16: "be16 (ucast (drop_bit 8 w)) (ucast w) = w"
  unfolding be16_def
  by (rule bit_word_eqI) (auto simp: bit_simps)

lemma be32_put32:
  "be32 (ucast (drop_bit 24 w)) (ucast (drop_bit 16 w)) (ucast (drop_bit 8 w)) (ucast w) = w"
proof (rule bit_word_eqI)
  fix n
  show "bit (be32 (ucast (drop_bit 24 w)) (ucast (drop_bit 16 w))
              (ucast (drop_bit 8 w)) (ucast w)) n \<longleftrightarrow> bit w n"
    if "n < LENGTH(32)"
    using that
    by (cases "n < 8"; cases "n < 16"; cases "n < 24") (auto simp: be32_def bit_simps)
qed

lemma bit_byte_high: "8 \<le> n \<Longrightarrow> \<not> bit (b :: byte) n"
  using bit_imp_le_length [of b n] by auto

lemma unat_byte_less: "unat (b :: byte) < 256"
  using unsigned_less [of b, where 'a = nat] by simp

lemma unat_u16_less: "unat (w :: 16 word) < 65536"
  using unsigned_less [of w, where 'a = nat] by simp

lemma unat_byte_eq: "n < 256 \<Longrightarrow> unat (b :: byte) = n \<longleftrightarrow> b = word_of_nat n"
  by (auto simp: unat_of_nat word_unat_eq_iff)

lemma put16_be16: "put16 (be16 a b) = [a, b]"
  unfolding put16_def be16_def
  by (auto intro!: bit_word_eqI simp: bit_simps bit_byte_high)

lemma put32_be32: "put32 (be32 a b c d) = [a, b, c, d]"
  unfolding put32_def be32_def
  by (auto intro!: bit_word_eqI simp: bit_simps bit_byte_high)

section \<open>Lists\<close>

lemma dropWhile_shorter:
  "xs \<noteq> [] \<Longrightarrow> P (hd xs) \<Longrightarrow> length (dropWhile P xs) < length xs"
  by (cases xs) (auto simp: le_imp_less_Suc length_dropWhile_le)

lemma dropWhile_id: "xs = [] \<or> \<not> P (hd xs) \<Longrightarrow> dropWhile P xs = xs"
  by (cases xs) auto

lemma hd_dropWhile_False: "dropWhile P xs \<noteq> [] \<Longrightarrow> \<not> P (hd (dropWhile P xs))"
  by (rule hd_dropWhile)

lemma takeWhile_stop:
  "(\<And>x. x \<in> set xs \<Longrightarrow> P x) \<Longrightarrow> \<not> P y \<Longrightarrow> takeWhile P (xs @ y # zs) = xs"
  by (induction xs) auto

lemma dropWhile_stop:
  "(\<And>x. x \<in> set xs \<Longrightarrow> P x) \<Longrightarrow> \<not> P y \<Longrightarrow> dropWhile P (xs @ y # zs) = y # zs"
  by (induction xs) auto

lemma take_le_append: "n \<le> length xs \<Longrightarrow> take n (xs @ ys) = take n xs"
  by simp

lemma drop_le_append: "n \<le> length xs \<Longrightarrow> drop n (xs @ ys) = drop n xs @ ys"
  by simp

end
