(* ===== verification/Incremental.thy ===== *)
theory Incremental
  imports Prelude
begin

text \<open>
  The contract of the parsers that read a byte stream in pieces: frames of a session, the
  address at the head of a stream, packets of a UoT stream. A parser of this kind returns an
  item with the number of bytes it used, asks for more bytes, or fails, and bytes after an
  answer do not change it. What the clients of such a parser need is proved once: reading a
  stream in chunks, with the incomplete rest kept between two reads, yields the items of the
  whole stream.
\<close>

text \<open>
  All items at the head of a buffer, the bytes that are left, and whether the parser failed
  on them.
\<close>

function parse_all :: "(buffer \<Rightarrow> ('a \<times> nat) parsed) \<Rightarrow> buffer \<Rightarrow> 'a list \<times> buffer \<times> bool" where
  "parse_all parse bs =
     (case parse bs of
        P_ok (x, n) \<Rightarrow>
          if 0 < n \<and> n \<le> length bs
          then let (xs, rest, err) = parse_all parse (drop n bs) in (x # xs, rest, err)
          else ([], bs, True)
      | P_again \<Rightarrow> ([], bs, False)
      | P_error \<Rightarrow> ([], bs, True))"
  by pat_completeness auto
termination
  by (relation "measure (\<lambda>(parse, bs). length bs)") auto

declare parse_all.simps [simp del]

fun feed_all ::
  "(buffer \<Rightarrow> ('a \<times> nat) parsed) \<Rightarrow> buffer \<Rightarrow> buffer list \<Rightarrow> 'a list \<times> buffer \<times> bool" where
  "feed_all parse rest [] = ([], rest, False)"
| "feed_all parse rest (c # cs) =
     (let (xs, rest1, err) = parse_all parse (rest @ c) in
      if err then (xs, rest1 @ concat cs, True)
      else let (ys, rest2, err2) = feed_all parse rest1 cs in (xs @ ys, rest2, err2))"

locale incremental_parser =
  fixes parse :: "buffer \<Rightarrow> ('a \<times> nat) parsed"
  assumes consumes: "parse bs = P_ok (x, n) \<Longrightarrow> 0 < n \<and> n \<le> length bs"
    and stable: "parse bs \<noteq> P_again \<Longrightarrow> parse (bs @ ys) = parse bs"
begin

lemma parse_all_ok:
  "parse bs = P_ok (x, n) \<Longrightarrow>
     parse_all parse bs =
       (let (xs, rest, err) = parse_all parse (drop n bs) in (x # xs, rest, err))"
  using consumes [of bs x n] by (subst parse_all.simps) simp

lemma parse_all_again [simp]: "parse bs = P_again \<Longrightarrow> parse_all parse bs = ([], bs, False)"
  by (subst parse_all.simps) simp

lemma parse_all_error [simp]: "parse bs = P_error \<Longrightarrow> parse_all parse bs = ([], bs, True)"
  by (subst parse_all.simps) simp

lemma parse_all_rest:
  "parse_all parse bs = (xs, rest, False) \<Longrightarrow> parse rest = P_again"
proof (induction bs arbitrary: xs rule: length_induct)
  case (1 bs)
  show ?case
  proof (cases "parse bs")
    case (P_ok p)
    then obtain x n where ok: "parse bs = P_ok (x, n)" by (cases p) auto
    then have "\<exists>xs. parse_all parse (drop n bs) = (xs, rest, False)"
      using "1.prems" by (auto simp: parse_all_ok split: prod.splits)
    moreover have "length (drop n bs) < length bs" using consumes [OF ok] by auto
    ultimately show ?thesis using "1.IH" by blast
  qed (use 1 in auto)
qed

text \<open>Nothing is lost: what one parse of a longer buffer yields is split at the end of the first.\<close>

lemma parse_all_append:
  "parse_all parse (bs @ ys) =
     (let (xs, rest, err) = parse_all parse bs in
      if err then (xs, rest @ ys, True)
      else let (xs', rest', err') = parse_all parse (rest @ ys) in (xs @ xs', rest', err'))"
proof (induction bs rule: length_induct)
  case (1 bs)
  show ?case
  proof (cases "parse bs")
    case (P_ok p)
    then obtain x n where ok: "parse bs = P_ok (x, n)" by (cases p) auto
    have n: "0 < n" "n \<le> length bs" using consumes [OF ok] by auto
    have "parse (bs @ ys) = P_ok (x, n)" using ok stable [of bs ys] by simp
    moreover have "parse_all parse (drop n bs @ ys) =
        (let (xs, rest, err) = parse_all parse (drop n bs) in
         if err then (xs, rest @ ys, True)
         else let (xs', rest', err') = parse_all parse (rest @ ys) in (xs @ xs', rest', err'))"
      using 1 n by simp
    ultimately show ?thesis
      using n ok by (simp add: parse_all_ok split: prod.split)
  next
    case P_error
    then show ?thesis using stable [of bs ys] by simp
  qed (simp split: prod.split)
qed

theorem feed_all_concat:
  "parse rest = P_again \<Longrightarrow> feed_all parse rest cs = parse_all parse (rest @ concat cs)"
proof (induction cs arbitrary: rest)
  case (Cons c cs)
  obtain xs r err where p: "parse_all parse (rest @ c) = (xs, r, err)"
    by (metis prod_cases3)
  show ?case
  proof (cases err)
    case True
    then show ?thesis
      using p parse_all_append [of "rest @ c" "concat cs"] by simp
  next
    case False
    then have "parse r = P_again" using p parse_all_rest [of "rest @ c" xs r] by simp
    from Cons.IH [OF this] show ?thesis
      using p False parse_all_append [of "rest @ c" "concat cs"] by simp
  qed
qed simp

end

end
