(* ===== verification/Protocol.thy ===== *)
theory Protocol
  imports Incremental
begin

text \<open>
  The wire protocol of \<open>src/src/ngx_anytls_protocol.c\<close>: the seven byte frame header, the
  frame parser, the settings parser and the padding digest. The functions of nginx and
  OpenSSL that the file calls are arguments: \<open>ngx_strlchr\<close> (search of a byte), the
  outcome of each \<open>ngx_pnalloc\<close> and \<open>MD5\<close>. \<open>ngx_atoi\<close> is the copy the
  repository keeps in \<open>src/fuzz/stub/ngx_stub.c\<close>.
\<close>

section \<open>Constants and types\<close>

abbreviation (input) "NGX_ANYTLS_FRAME_HEADER_LEN \<equiv> 7 :: nat"
abbreviation (input) "NGX_ANYTLS_MAX_FRAME_DATA \<equiv> 65535 :: nat"

text \<open>The commands of \<open>ngx_anytls_cmd_e\<close>, by their number on the wire.\<close>

abbreviation (input) "NGX_ANYTLS_CMD_WASTE \<equiv> 0 :: nat"
abbreviation (input) "NGX_ANYTLS_CMD_SYN \<equiv> 1 :: nat"
abbreviation (input) "NGX_ANYTLS_CMD_PSH \<equiv> 2 :: nat"
abbreviation (input) "NGX_ANYTLS_CMD_FIN \<equiv> 3 :: nat"
abbreviation (input) "NGX_ANYTLS_CMD_SETTINGS \<equiv> 4 :: nat"
abbreviation (input) "NGX_ANYTLS_CMD_ALERT \<equiv> 5 :: nat"
abbreviation (input) "NGX_ANYTLS_CMD_UPDATE_PADDING \<equiv> 6 :: nat"
abbreviation (input) "NGX_ANYTLS_CMD_SYNACK \<equiv> 7 :: nat"
abbreviation (input) "NGX_ANYTLS_CMD_HEART_REQUEST \<equiv> 8 :: nat"
abbreviation (input) "NGX_ANYTLS_CMD_HEART_RESPONSE \<equiv> 9 :: nat"
abbreviation (input) "NGX_ANYTLS_CMD_SERVER_SETTINGS \<equiv> 10 :: nat"

text \<open>
  \<open>ngx_anytls_frame_t\<close>: the data pointer is \<open>None\<close> for \<open>NULL\<close>, and otherwise the
  bytes it points at.
\<close>

record frame =
  f_cmd :: nat
  f_stream_id :: "32 word"
  f_data_len :: "16 word"
  f_data :: "buffer option"

text \<open>\<open>ngx_anytls_settings_t\<close>: an \<open>ngx_str_t\<close> is its bytes, a zeroed one is empty.\<close>

record settings =
  s_version :: nat
  s_client :: buffer
  s_padding_md5 :: buffer

section \<open>Frames\<close>

definition parse_frame :: "buffer \<Rightarrow> (frame \<times> nat) parsed" where
  "parse_frame p =
     (let avail = length p in
      if avail < NGX_ANYTLS_FRAME_HEADER_LEN then P_again
      else
        let cmd = unat (p ! 0);
            sid = be32 (p ! 1) (p ! 2) (p ! 3) (p ! 4);
            dlen = be16 (p ! 5) (p ! 6);
            n = NGX_ANYTLS_FRAME_HEADER_LEN + unat dlen
        in if avail < n then P_again
           else if cmd > NGX_ANYTLS_CMD_SERVER_SETTINGS then
             P_ok (\<lparr>f_cmd = cmd, f_stream_id = sid, f_data_len = dlen, f_data = None\<rparr>, n)
           else
             P_ok (\<lparr>f_cmd = cmd, f_stream_id = sid, f_data_len = dlen,
                    f_data = (if dlen \<noteq> 0
                              then Some (take (unat dlen) (drop NGX_ANYTLS_FRAME_HEADER_LEN p))
                              else None)\<rparr>, n))"

definition write_frame_header :: "nat \<Rightarrow> 32 word \<Rightarrow> 16 word \<Rightarrow> buffer" where
  "write_frame_header cmd sid len =
     [word_of_nat cmd,
      ucast (drop_bit 24 sid), ucast (drop_bit 16 sid), ucast (drop_bit 8 sid), ucast sid,
      ucast (drop_bit 8 len), ucast len]"

lemma length_write_frame_header [simp]: "length (write_frame_header cmd sid len) = 7"
  by (simp add: write_frame_header_def)

section \<open>Settings\<close>

text \<open>\<open>ngx_atoi\<close>: \<open>None\<close> for \<open>NGX_ERROR\<close>; the value is at most \<open>NGX_MAX_INT_T_VALUE\<close>.\<close>

abbreviation (input) "NGX_MAX_INT_T_VALUE \<equiv> 9223372036854775807 :: nat"

fun ngx_atoi_loop :: "nat \<Rightarrow> buffer \<Rightarrow> nat option" where
  "ngx_atoi_loop v [] = Some v"
| "ngx_atoi_loop v (c # cs) =
     (if c < 48 \<or> c > 57 then None
      else if v \<ge> NGX_MAX_INT_T_VALUE div 10
              \<and> (v > NGX_MAX_INT_T_VALUE div 10
                 \<or> unat c - 48 > NGX_MAX_INT_T_VALUE mod 10) then None
      else ngx_atoi_loop (v * 10 + (unat c - 48)) cs)"

definition ngx_atoi :: "buffer \<Rightarrow> nat option" where
  "ngx_atoi line = (if line = [] then None else ngx_atoi_loop 0 line)"

definition is_eol :: "byte \<Rightarrow> bool" where
  "is_eol c \<longleftrightarrow> c = 10 \<or> c = 13"

text \<open>
  One non-empty line of the settings: \<open>mem k\<close> says whether the \<open>k\<close>-th allocation of
  this call succeeds; \<open>None\<close> is \<open>return NGX_ERROR\<close>.
\<close>

definition settings_line ::
  "(buffer \<Rightarrow> byte \<Rightarrow> nat option) \<Rightarrow> (nat \<Rightarrow> bool) \<Rightarrow> buffer \<Rightarrow> nat \<times> settings \<Rightarrow> (nat \<times> settings) option"
  where
  "settings_line strlchr mem line ks =
     (let (k, s) = ks in
      case strlchr line 61 of
        None \<Rightarrow> Some (k, s)
      | Some eq \<Rightarrow>
          if eq = 1 \<and> line ! 0 = 118 then
            Some (k, s\<lparr>s_version :=
                       (case ngx_atoi (drop (eq + 1) line) of None \<Rightarrow> 1 | Some v \<Rightarrow> v)\<rparr>)
          else if eq = 6 \<and> take 6 line = bytes_of ''client'' then
            (if mem k then Some (Suc k, s\<lparr>s_client := drop (eq + 1) line\<rparr>) else None)
          else if eq = 11 \<and> take 11 line = bytes_of ''padding-md5'' then
            (if mem k then Some (Suc k, s\<lparr>s_padding_md5 := drop (eq + 1) line\<rparr>) else None)
          else Some (k, s))"

function settings_loop ::
  "(buffer \<Rightarrow> byte \<Rightarrow> nat option) \<Rightarrow> (nat \<Rightarrow> bool) \<Rightarrow> buffer \<Rightarrow> nat \<times> settings \<Rightarrow> settings parsed"
  where
  "settings_loop strlchr mem p ks =
     (if p = [] then P_ok (snd ks)
      else
        let line = takeWhile (\<lambda>c. \<not> is_eol c) p;
            rest = dropWhile is_eol (dropWhile (\<lambda>c. \<not> is_eol c) p)
        in if line = [] then settings_loop strlchr mem rest ks
           else case settings_line strlchr mem line ks of
                  None \<Rightarrow> P_error
                | Some ks' \<Rightarrow> settings_loop strlchr mem rest ks')"
  by pat_completeness auto

lemma settings_rest_shorter:
  assumes "p \<noteq> []"
  shows "length (dropWhile is_eol (dropWhile (\<lambda>c. \<not> is_eol c) p)) < length p"
proof (cases "is_eol (hd p)")
  case True
  then show ?thesis
    using assms by (auto simp: dropWhile_id intro: dropWhile_shorter)
next
  case False
  then have "length (dropWhile (\<lambda>c. \<not> is_eol c) p) < length p"
    using assms by (intro dropWhile_shorter) auto
  then show ?thesis
    by (meson le_less_trans length_dropWhile_le)
qed

termination settings_loop
  by (relation "measure (\<lambda>(_, _, p, _). length p)") (auto intro: settings_rest_shorter)

declare settings_loop.simps [simp del]

definition settings_init :: settings where
  "settings_init = \<lparr>s_version = 1, s_client = [], s_padding_md5 = []\<rparr>"

definition parse_settings ::
  "(buffer \<Rightarrow> byte \<Rightarrow> nat option) \<Rightarrow> (nat \<Rightarrow> bool) \<Rightarrow> buffer \<Rightarrow> settings parsed" where
  "parse_settings strlchr mem data = settings_loop strlchr mem data (0, settings_init)"

section \<open>Digest text and command names\<close>

definition hex_digit :: "nat \<Rightarrow> byte" where
  "hex_digit n = bytes_of ''0123456789abcdef'' ! n"

definition md5_hex :: "(buffer \<Rightarrow> buffer) \<Rightarrow> buffer \<Rightarrow> buffer" where
  "md5_hex md5 data =
     concat (map (\<lambda>b. [hex_digit (unat (drop_bit 4 b)), hex_digit (unat (b AND 15))])
                 (md5 data)) @ [0]"

definition cmd_name :: "nat \<Rightarrow> string" where
  "cmd_name cmd =
     (if cmd > NGX_ANYTLS_CMD_SERVER_SETTINGS then ''UNKNOWN''
      else [''WASTE'', ''SYN'', ''PSH'', ''FIN'', ''SETTINGS'', ''ALERT'', ''UPDATE_PADDING'',
            ''SYNACK'', ''HEART_REQUEST'', ''HEART_RESPONSE'', ''SERVER_SETTINGS''] ! cmd)"

section \<open>The frame codec\<close>

lemma parse_frame_header:
  assumes "cmd < 256" and "length d = unat len"
  shows "parse_frame (write_frame_header cmd sid len @ d @ rest) =
    P_ok (\<lparr>f_cmd = cmd, f_stream_id = sid, f_data_len = len,
           f_data = (if cmd \<le> NGX_ANYTLS_CMD_SERVER_SETTINGS \<and> d \<noteq> [] then Some d else None)\<rparr>,
          7 + length d)"
proof -
  have "unat (word_of_nat cmd :: byte) = cmd"
    using assms(1) by (simp add: unat_of_nat)
  moreover have "d = [] \<longleftrightarrow> len = 0"
    using assms(2) by (metis length_0_conv unat_eq_zero)
  ultimately show ?thesis
    using assms(2)
    by (auto simp: parse_frame_def write_frame_header_def be16_put16 be32_put32 Let_def)
qed

lemma parse_frame_okE:
  assumes "parse_frame p = P_ok (f, n)"
  obtains "n = 7 + unat (f_data_len f)" and "n \<le> length p" and "f_cmd f < 256"
  using assms unat_byte_less [of "p ! 0"]
  by (auto simp: parse_frame_def Let_def split: if_splits)

lemma parse_frame_not_error [simp]: "parse_frame p \<noteq> P_error"
  by (simp add: parse_frame_def Let_def)

lemma parse_frame_append:
  "parse_frame p = P_ok (f, n) \<Longrightarrow> parse_frame (p @ q) = P_ok (f, n)"
  by (auto simp: parse_frame_def Let_def nth_append split: if_splits)





interpretation frames: incremental_parser parse_frame
proof
  fix bs ys and f n
  show "0 < n \<and> n \<le> length bs" if "parse_frame bs = P_ok (f, n)"
    using that by (rule parse_frame_okE) simp
  show "parse_frame (bs @ ys) = parse_frame bs" if "parse_frame bs \<noteq> P_again"
    using that parse_frame_append [of bs] by (cases "parse_frame bs") auto
qed

text \<open>A message of the protocol with its encoding and what the parser makes of it.\<close>

record message =
  m_cmd :: nat
  m_stream_id :: "32 word"
  m_payload :: buffer

definition wf_message :: "message \<Rightarrow> bool" where
  "wf_message m \<longleftrightarrow> m_cmd m < 256 \<and> length (m_payload m) \<le> NGX_ANYTLS_MAX_FRAME_DATA"

definition encode_message :: "message \<Rightarrow> buffer" where
  "encode_message m =
     write_frame_header (m_cmd m) (m_stream_id m) (word_of_nat (length (m_payload m))) @ m_payload m"

definition message_frame :: "message \<Rightarrow> frame" where
  "message_frame m =
     \<lparr>f_cmd = m_cmd m, f_stream_id = m_stream_id m, f_data_len = word_of_nat (length (m_payload m)),
      f_data = (if m_cmd m \<le> NGX_ANYTLS_CMD_SERVER_SETTINGS \<and> m_payload m \<noteq> []
                then Some (m_payload m) else None)\<rparr>"

lemma parse_frame_encode:
  "wf_message m \<Longrightarrow>
     parse_frame (encode_message m @ rest) = P_ok (message_frame m, length (encode_message m))"
  unfolding wf_message_def encode_message_def message_frame_def
  by (simp add: parse_frame_header unat_of_nat)

lemma parse_all_encode:
  "list_all wf_message ms \<Longrightarrow> parse_frame rest = P_again \<Longrightarrow>
     parse_all parse_frame (concat (map encode_message ms) @ rest) = (map message_frame ms, rest, False)"
proof (induction ms)
  case (Cons m ms)
  then show ?case
    using frames.parse_all_ok [OF parse_frame_encode [of m "concat (map encode_message ms) @ rest"]]
    by simp
qed simp



section \<open>Numbers\<close>

definition is_digit :: "byte \<Rightarrow> bool" where
  "is_digit c \<longleftrightarrow> 48 \<le> c \<and> c \<le> 57"

definition dec_value :: "nat \<Rightarrow> buffer \<Rightarrow> nat" where
  "dec_value v s = foldl (\<lambda>v c. v * 10 + (unat c - 48)) v s"

lemma dec_value_simps [simp]:
  "dec_value v [] = v"
  "dec_value v (c # cs) = dec_value (v * 10 + (unat c - 48)) cs"
  by (simp_all add: dec_value_def)

lemma dec_value_ge: "v \<le> dec_value v s"
proof (induction s arbitrary: v)
  case (Cons c cs)
  have "v \<le> v * 10 + (unat c - 48)" by simp
  also have "\<dots> \<le> dec_value (v * 10 + (unat c - 48)) cs" by (rule Cons.IH)
  finally show ?case by simp
qed simp

lemma digit_value_le: "is_digit c \<Longrightarrow> unat c - 48 \<le> 9"
  by (auto simp: is_digit_def word_le_nat_alt)

lemma not_digit_iff: "(c < 48 \<or> c > 57) \<longleftrightarrow> \<not> is_digit c"
  by (auto simp: is_digit_def)

lemma ngx_atoi_loop_eq:
  assumes "v \<le> NGX_MAX_INT_T_VALUE"
  shows "ngx_atoi_loop v s =
     (if list_all is_digit s \<and> dec_value v s \<le> NGX_MAX_INT_T_VALUE
      then Some (dec_value v s) else None)"
  using assms
proof (induction s arbitrary: v)
  case (Cons c cs)
  let ?w = "v * 10 + (unat c - 48)"
  show ?case
  proof (cases "is_digit c")
    case False
    then show ?thesis by (simp add: not_digit_iff)
  next
    case True
    have guard: "(v \<ge> NGX_MAX_INT_T_VALUE div 10
              \<and> (v > NGX_MAX_INT_T_VALUE div 10
                 \<or> unat c - 48 > NGX_MAX_INT_T_VALUE mod 10)) \<longleftrightarrow> ?w > NGX_MAX_INT_T_VALUE"
      using digit_value_le [OF True] by auto
    show ?thesis
    proof (cases "?w > NGX_MAX_INT_T_VALUE")
      case over: True
      then have "\<not> dec_value ?w cs \<le> NGX_MAX_INT_T_VALUE"
        using dec_value_ge [of ?w cs] by linarith
      then show ?thesis
        unfolding ngx_atoi_loop.simps guard not_digit_iff using over True by simp
    next
      case False
      then have "ngx_atoi_loop v (c # cs) = ngx_atoi_loop ?w cs"
        unfolding ngx_atoi_loop.simps guard not_digit_iff using True by simp
      then show ?thesis
        using Cons.IH [of ?w] False True by simp
    qed
  qed
qed simp

text \<open>
  C25: \<open>ngx_atoi\<close> accepts exactly the non-empty decimal strings whose value fits a signed
  64 bit integer, and returns that value: the overflow guard is neither too strict nor
  too lax.
\<close>

theorem ngx_atoi_exact:
  "ngx_atoi s =
     (if s \<noteq> [] \<and> list_all is_digit s \<and> dec_value 0 s \<le> 2 ^ 63 - 1
      then Some (dec_value 0 s) else None)"
  by (simp add: ngx_atoi_def ngx_atoi_loop_eq)

section \<open>The settings parser against its specification\<close>

text \<open>What the parser relies on of \<open>ngx_strlchr\<close>: the offset of the first match.\<close>

definition strlchr_spec :: "(buffer \<Rightarrow> byte \<Rightarrow> nat option) \<Rightarrow> bool" where
  "strlchr_spec f \<longleftrightarrow>
     (\<forall>s c. f s c = (if c \<in> set s then Some (length (takeWhile (\<lambda>x. x \<noteq> c) s)) else None))"

text \<open>The lines of the input: maximal runs without CR and LF, empty ones dropped.\<close>

fun eol_fields :: "buffer \<Rightarrow> buffer list" where
  "eol_fields [] = [[]]"
| "eol_fields (c # cs) =
     (if is_eol c then [] # eol_fields cs
      else (c # hd (eol_fields cs)) # tl (eol_fields cs))"

definition settings_lines :: "buffer \<Rightarrow> buffer list" where
  "settings_lines p = filter (\<lambda>l. l \<noteq> []) (eol_fields p)"

fun settings_fold ::
  "(buffer \<Rightarrow> byte \<Rightarrow> nat option) \<Rightarrow> (nat \<Rightarrow> bool) \<Rightarrow> buffer list \<Rightarrow> nat \<times> settings \<Rightarrow> settings parsed"
  where
  "settings_fold strlchr mem [] ks = P_ok (snd ks)"
| "settings_fold strlchr mem (l # ls) ks =
     (case settings_line strlchr mem l ks of
        None \<Rightarrow> P_error
      | Some ks' \<Rightarrow> settings_fold strlchr mem ls ks')"

lemma eol_fields_not_Nil [simp]: "eol_fields p \<noteq> []"
  by (induction p) auto

lemma eol_fields_unfold:
  "eol_fields p = takeWhile (\<lambda>c. \<not> is_eol c) p #
     (case dropWhile (\<lambda>c. \<not> is_eol c) p of [] \<Rightarrow> [] | _ # q \<Rightarrow> eol_fields q)"
  by (induction p) auto

lemma settings_lines_skip: "settings_lines (dropWhile is_eol p) = settings_lines p"
  by (induction p) (auto simp: settings_lines_def)

lemma settings_lines_unfold:
  assumes "p \<noteq> []"
  shows "settings_lines p =
    (let line = takeWhile (\<lambda>c. \<not> is_eol c) p;
         rest = dropWhile is_eol (dropWhile (\<lambda>c. \<not> is_eol c) p)
     in if line = [] then settings_lines rest else line # settings_lines rest)"
proof (cases "dropWhile (\<lambda>c. \<not> is_eol c) p")
  case Nil
  have "takeWhile (\<lambda>c. \<not> is_eol c) p = p"
    using Nil by auto
  then show ?thesis
    using assms by (simp only: settings_lines_def eol_fields_unfold [of p] Nil Let_def list.case) simp
next
  case (Cons e q)
  then have "is_eol e"
    using hd_dropWhile_False [of "\<lambda>c. \<not> is_eol c" p] by simp
  then have "settings_lines (dropWhile is_eol (e # q)) = settings_lines q"
    by (simp add: settings_lines_skip)
  then show ?thesis
    using Cons eol_fields_unfold [of p] by (simp add: settings_lines_def)
qed

lemma settings_loop_fold:
  "settings_loop strlchr mem p ks = settings_fold strlchr mem (settings_lines p) ks"
proof (induction strlchr mem p ks rule: settings_loop.induct)
  case (1 strlchr mem p ks)
  show ?case
  proof (cases "p = []")
    case True
    then show ?thesis by (simp add: settings_loop.simps settings_lines_def)
  next
    case False
    with 1 show ?thesis
      by (subst settings_loop.simps) (auto simp: settings_lines_unfold [OF False] Let_def
          split: option.split)
  qed
qed

definition kv_line :: "buffer \<times> buffer \<Rightarrow> buffer" where
  "kv_line kv = fst kv @ 61 # snd kv"

definition render_settings :: "(buffer \<times> buffer) list \<Rightarrow> buffer" where
  "render_settings kvs = concat (map (\<lambda>kv. kv_line kv @ [10]) kvs)"

definition clean_kv :: "buffer \<times> buffer \<Rightarrow> bool" where
  "clean_kv kv \<longleftrightarrow> list_all (\<lambda>c. \<not> is_eol c \<and> c \<noteq> 61) (fst kv)
                   \<and> list_all (\<lambda>c. \<not> is_eol c) (snd kv)"

lemma settings_lines_render:
  "list_all clean_kv kvs \<Longrightarrow> settings_lines (render_settings kvs) = map kv_line kvs"
proof (induction kvs)
  case Nil
  then show ?case by (simp add: render_settings_def settings_lines_def)
next
  case (Cons kv kvs)
  let ?rest = "render_settings kvs"
  have eq: "render_settings (kv # kvs) = kv_line kv @ 10 # ?rest"
    by (simp add: render_settings_def)
  have clean: "\<not> is_eol c" if "c \<in> set (kv_line kv)" for c
    using that Cons.prems
    by (auto simp: kv_line_def clean_kv_def list_all_iff is_eol_def)
  then have "takeWhile (\<lambda>c. \<not> is_eol c) (render_settings (kv # kvs)) = kv_line kv"
    and "dropWhile (\<lambda>c. \<not> is_eol c) (render_settings (kv # kvs)) = 10 # ?rest"
    unfolding eq by (auto simp: is_eol_def intro!: takeWhile_stop dropWhile_stop)
  then show ?case
    using Cons eol_fields_unfold [of "render_settings (kv # kvs)"]
    by (simp add: settings_lines_def kv_line_def)
qed

definition settings_put :: "buffer \<times> buffer \<Rightarrow> settings \<Rightarrow> settings" where
  "settings_put kv s =
     (if fst kv = [118] then
        s\<lparr>s_version := (case ngx_atoi (snd kv) of None \<Rightarrow> 1 | Some v \<Rightarrow> v)\<rparr>
      else if fst kv = bytes_of ''client'' then s\<lparr>s_client := snd kv\<rparr>
      else if fst kv = bytes_of ''padding-md5'' then s\<lparr>s_padding_md5 := snd kv\<rparr>
      else s)"

lemma settings_line_kv:
  assumes "strlchr_spec strlchr" and "clean_kv kv" and "mem k"
  shows "\<exists>k'\<ge>k. k' \<le> Suc k \<and> settings_line strlchr mem (kv_line kv) (k, s) = Some (k', settings_put kv s)"
proof -
  obtain key val where kv: "kv = (key, val)" by force
  have key: "61 \<notin> set key"
    using assms(2) by (auto simp: kv clean_kv_def list_all_iff)
  then have "takeWhile (\<lambda>x. x \<noteq> 61) (key @ 61 # val) = key"
    by (intro takeWhile_stop) auto
  then have "strlchr (kv_line kv) 61 = Some (length key)"
    using assms(1) by (simp add: strlchr_spec_def kv_line_def kv)
  moreover have "(length key = 1 \<and> kv_line kv ! 0 = 118) \<longleftrightarrow> key = [118]"
    by (auto simp: kv_line_def kv length_Suc_conv)
  moreover have "(length key = 6 \<and> take 6 (kv_line kv) = bytes_of ''client'')
                 \<longleftrightarrow> key = bytes_of ''client''"
    by (auto simp: kv_line_def kv)
  moreover have "(length key = 11 \<and> take 11 (kv_line kv) = bytes_of ''padding-md5'')
                 \<longleftrightarrow> key = bytes_of ''padding-md5''"
    by (auto simp: kv_line_def kv)
  moreover have "drop (length key + 1) (kv_line kv) = val"
    by (simp add: kv_line_def kv)
  ultimately have "settings_line strlchr mem (kv_line kv) (k, s) =
      Some (if key = bytes_of ''client'' \<or> key = bytes_of ''padding-md5'' then Suc k else k,
            settings_put kv s)"
    using assms(3)
    by (simp add: settings_line_def settings_put_def kv bytes_of_def) (simp add: kv_line_def)
  then show ?thesis by (simp split: if_splits)
qed

lemma settings_fold_kv:
  assumes "strlchr_spec strlchr" and "\<And>k. mem k"
  shows "list_all clean_kv kvs \<Longrightarrow>
    settings_fold strlchr mem (map kv_line kvs) (k, s) = P_ok (fold settings_put kvs s)"
proof (induction kvs arbitrary: k s)
  case (Cons kv kvs)
  then obtain k' where
    "settings_line strlchr mem (kv_line kv) (k, s) = Some (k', settings_put kv s)"
    using settings_line_kv [OF assms(1), of kv mem k s] assms(2) by auto
  then show ?case using Cons by simp
qed simp

lemma fold_settings_put:
  "fold settings_put kvs settings_init =
     \<lparr>s_version = (case map_of (rev kvs) [118] of None \<Rightarrow> 1
                   | Some t \<Rightarrow> (case ngx_atoi t of None \<Rightarrow> 1 | Some v \<Rightarrow> v)),
      s_client = (case map_of (rev kvs) (bytes_of ''client'') of None \<Rightarrow> [] | Some c \<Rightarrow> c),
      s_padding_md5 =
        (case map_of (rev kvs) (bytes_of ''padding-md5'') of None \<Rightarrow> [] | Some m \<Rightarrow> m)\<rparr>"
  by (induction kvs rule: rev_induct)
    (auto simp: settings_init_def settings_put_def bytes_of_def)

definition settings_of :: "(buffer \<times> buffer) list \<Rightarrow> settings" where
  "settings_of kvs =
     \<lparr>s_version = (case map_of (rev kvs) [118] of None \<Rightarrow> 1
                   | Some t \<Rightarrow> (case ngx_atoi t of None \<Rightarrow> 1 | Some v \<Rightarrow> v)),
      s_client = (case map_of (rev kvs) (bytes_of ''client'') of None \<Rightarrow> [] | Some c \<Rightarrow> c),
      s_padding_md5 =
        (case map_of (rev kvs) (bytes_of ''padding-md5'') of None \<Rightarrow> [] | Some m \<Rightarrow> m)\<rparr>"

lemma parse_settings_rendered:
  assumes "strlchr_spec strlchr" and "\<And>k. mem k" and "list_all clean_kv kvs"
  shows "parse_settings strlchr mem (render_settings kvs) = P_ok (settings_of kvs)"
  by (simp add: parse_settings_def settings_loop_fold settings_lines_render [OF assms(3)]
      settings_fold_kv [OF assms] fold_settings_put settings_of_def)

text \<open>
  C14: Reading back a rendered settings block: for any list of clean key=value lines the
  parser keeps, of each of the keys \<open>v\<close>, \<open>client\<close> and \<open>padding-md5\<close>, the value of its
  last line; a missing or non-numeric version reads as 1 and unknown keys are ignored.
\<close>

theorem settings_roundtrip:
  assumes "strlchr_spec strlchr" and "\<And>k. mem k" and "list_all clean_kv kvs"
  shows "parse_settings strlchr mem (render_settings kvs) = P_ok
     \<lparr>s_version = (case map_of (rev kvs) [118] of None \<Rightarrow> 1
                   | Some t \<Rightarrow> (case ngx_atoi t of None \<Rightarrow> 1 | Some v \<Rightarrow> v)),
      s_client = (case map_of (rev kvs) (bytes_of ''client'') of None \<Rightarrow> [] | Some c \<Rightarrow> c),
      s_padding_md5 =
        (case map_of (rev kvs) (bytes_of ''padding-md5'') of None \<Rightarrow> [] | Some m \<Rightarrow> m)\<rparr>"
  using parse_settings_rendered [OF assms] by (simp add: settings_of_def)

definition strlchr_ref :: "buffer \<Rightarrow> byte \<Rightarrow> nat option" where
  "strlchr_ref s c = (if c \<in> set s then Some (length (takeWhile (\<lambda>x. x \<noteq> c) s)) else None)"

lemma strlchr_ref_spec [simp]: "strlchr_spec strlchr_ref"
  by (simp add: strlchr_spec_def strlchr_ref_def)

theorem settings_roundtrip_witness:
  "parse_settings strlchr_ref (\<lambda>_. True)
     (render_settings [([118], [50]), (bytes_of ''client'', [99]), ([120], []), ([118], [51])])
   = P_ok \<lparr>s_version = 3, s_client = [99], s_padding_md5 = []\<rparr>"
proof -
  have "list_all clean_kv [([118], [50]), (bytes_of ''client'', [99]), ([120], []), ([118], [51])]"
    by code_simp
  from settings_roundtrip [OF strlchr_ref_spec _ this, of "\<lambda>_. True"]
  show ?thesis by (simp add: bytes_of_def ngx_atoi_def)
qed


section \<open>The digest text\<close>

definition hex_value :: "byte \<Rightarrow> nat" where
  "hex_value c = (if c \<ge> 97 then unat c - 87 else unat c - 48)"

lemma hex_digit_cases: "n < 16 \<Longrightarrow> hex_value (hex_digit n) = n \<and> hex_digit n \<noteq> 0"
proof -
  have "list_all (\<lambda>n. hex_value (hex_digit n) = n \<and> hex_digit n \<noteq> 0) [0..<16]"
    by code_simp
  then show "n < 16 \<Longrightarrow> hex_value (hex_digit n) = n \<and> hex_digit n \<noteq> 0"
    by (simp add: list_all_iff)
qed

fun unhex :: "buffer \<Rightarrow> buffer" where
  "unhex (a # b # cs) = word_of_nat (hex_value a * 16 + hex_value b) # unhex cs"
| "unhex _ = []"

lemma nibbles:
  "unat (drop_bit 4 (b :: byte)) = unat b div 16" "unat (b AND 15) = unat b mod 16"
proof -
  have "b AND 15 = take_bit 4 b"
    by (simp add: take_bit_eq_mask mask_eq_exp_minus_1)
  then show "unat (b AND 15) = unat b mod 16"
    by (simp add: unsigned_take_bit_eq take_bit_eq_mod unat_mod)
  show "unat (drop_bit 4 b) = unat b div 16"
    by (simp add: unat_drop_bit_eq drop_bit_eq_div unat_div)
qed

lemma md5_hex_length: "length (md5_hex md5 data) = 2 * length (md5 data) + 1"
  by (simp add: md5_hex_def length_concat comp_def sum_list_triv)

lemma unhex_md5_hex: "unhex (md5_hex md5 data) = md5 data"
proof -
  have "unhex (concat (map (\<lambda>b. [hex_digit (unat (drop_bit 4 b)), hex_digit (unat (b AND 15))]) ds)
          @ [0]) = ds" for ds
  proof (induction ds)
    case (Cons b ds)
    have "unat b div 16 < 16" "unat b mod 16 < 16"
      using unat_byte_less [of b] by auto
    then have "word_of_nat (hex_value (hex_digit (unat b div 16)) * 16
                 + hex_value (hex_digit (unat b mod 16))) = b"
      by (simp only: hex_digit_cases) (simp add: div_mult_mod_eq)
    then show ?case
      using Cons by (simp add: nibbles)
  qed simp
  then show ?thesis by (simp add: md5_hex_def)
qed

lemma md5_hex_no_nul: "0 \<notin> set (butlast (md5_hex md5 data))"
proof -
  have "hex_digit (unat b div 16) \<noteq> 0 \<and> hex_digit (unat b mod 16) \<noteq> 0" for b :: byte
    using hex_digit_cases [of "unat b div 16"] hex_digit_cases [of "unat b mod 16"]
      unat_byte_less [of b] by auto
  then show ?thesis
    by (auto simp: md5_hex_def butlast_append nibbles)
qed



end
