(* ===== verification/Padding.thy ===== *)
theory Padding
  imports Protocol
begin

text \<open>
  The padding scheme, \<open>src/src/ngx_anytls_padding.c\<close>: the validator as the loop of the
  source, and the loader with the file system as an argument. The scheme in force is sent to
  clients in a frame with a 16 bit length.
\<close>

section \<open>The validator\<close>

definition is_blank :: "byte \<Rightarrow> bool" where
  "is_blank c \<longleftrightarrow> c = 10 \<or> c = 13 \<or> c = 32 \<or> c = 9"

definition key_char :: "byte \<Rightarrow> bool" where
  "key_char c \<longleftrightarrow> c \<noteq> 61 \<and> c \<noteq> 10 \<and> c \<noteq> 13"

function validate_loop :: "buffer \<Rightarrow> bool \<Rightarrow> bool" where
  "validate_loop p saw_stop =
     (let p1 = dropWhile is_blank p in
      if p1 = [] then saw_stop
      else if hd p1 = 35 then validate_loop (dropWhile (\<lambda>c. c \<noteq> 10) p1) saw_stop
      else
        let key = takeWhile key_char p1; eq = dropWhile key_char p1 in
        if eq = [] \<or> hd eq \<noteq> 61 then False
        else validate_loop (dropWhile (\<lambda>c. c \<noteq> 10 \<and> c \<noteq> 13) (tl eq))
               (saw_stop \<or> key = bytes_of ''stop''))"
  by pat_completeness auto

lemma validate_shrinks:
  "dropWhile is_blank p \<noteq> [] \<Longrightarrow> hd (dropWhile is_blank p) = 35 \<Longrightarrow>
     length (dropWhile (\<lambda>c. c \<noteq> 10) (dropWhile is_blank p)) < length p"
  "dropWhile key_char (dropWhile is_blank p) \<noteq> [] \<Longrightarrow>
     length (dropWhile (\<lambda>c. c \<noteq> 10 \<and> c \<noteq> 13) (tl (dropWhile key_char (dropWhile is_blank p)))) < length p"
proof -
  assume "dropWhile is_blank p \<noteq> []" and "hd (dropWhile is_blank p) = 35"
  then have "length (dropWhile (\<lambda>c. c \<noteq> 10) (dropWhile is_blank p)) < length (dropWhile is_blank p)"
    by (intro dropWhile_shorter) auto
  then show "length (dropWhile (\<lambda>c. c \<noteq> 10) (dropWhile is_blank p)) < length p"
    by (meson less_le_trans length_dropWhile_le)
next
  let ?eq = "dropWhile key_char (dropWhile is_blank p)"
  assume "?eq \<noteq> []"
  then have "length (tl ?eq) < length ?eq" by simp
  moreover have "length ?eq \<le> length p"
    by (meson order.trans length_dropWhile_le)
  ultimately show "length (dropWhile (\<lambda>c. c \<noteq> 10 \<and> c \<noteq> 13) (tl ?eq)) < length p"
    by (meson le_less_trans less_le_trans length_dropWhile_le)
qed

termination validate_loop
  by (relation "measure (\<lambda>(p, _). length p)") (auto intro: validate_shrinks)

declare validate_loop.simps [simp del]

definition padding_validate :: "buffer option \<Rightarrow> rc" where
  "padding_validate data =
     (case data of
        None \<Rightarrow> NGX_ERROR
      | Some d \<Rightarrow> if d = [] then NGX_ERROR
                  else if validate_loop d False then NGX_OK else NGX_ERROR)"

section \<open>The loader\<close>

definition NGX_ANYTLS_DEFAULT_PADDING :: buffer where
  "NGX_ANYTLS_DEFAULT_PADDING =
     bytes_of ''stop=8'' @ [10] @ bytes_of ''0=30-30'' @ [10] @ bytes_of ''1=100-400'' @ [10]
     @ bytes_of ''2=400-500,c,500-1000,c,500-1000,c,500-1000,c,500-1000'' @ [10]
     @ bytes_of ''3=9-9,500-1000'' @ [10] @ bytes_of ''4=500-1000'' @ [10]
     @ bytes_of ''5=500-1000'' @ [10] @ bytes_of ''6=500-1000'' @ [10] @ bytes_of ''7=500-1000''"

record padding_conf =
  pc_file :: "buffer option"
  pc_data :: "buffer option"
  pc_md5 :: buffer

text \<open>
  What the file system answers for the configured path: whether it opens, its size if
  \<open>ngx_fd_info\<close> succeeds, and the bytes if \<open>ngx_read_file\<close> does (the buffer after a
  successful read, \<open>fsize\<close> bytes).
\<close>

record file_answer =
  fa_opens :: bool
  fa_size :: "int option"
  fa_read :: "nat \<Rightarrow> buffer option"

definition padding_load ::
  "(buffer \<Rightarrow> buffer) \<Rightarrow> (buffer \<Rightarrow> file_answer) \<Rightarrow> (nat \<Rightarrow> bool) \<Rightarrow> padding_conf \<Rightarrow> rc \<times> padding_conf"
  where
  "padding_load md5 fs alloc conf =
     (if pc_data conf \<noteq> None then (NGX_OK, conf)
      else case pc_file conf of
        None \<Rightarrow>
          (if \<not> alloc (length NGX_ANYTLS_DEFAULT_PADDING) then (NGX_ERROR, conf)
           else (NGX_OK, conf\<lparr>pc_data := Some NGX_ANYTLS_DEFAULT_PADDING,
                              pc_md5 := md5_hex md5 NGX_ANYTLS_DEFAULT_PADDING\<rparr>))
      | Some path \<Rightarrow>
          let f = fs path in
          if \<not> fa_opens f then (NGX_ERROR, conf)
          else case fa_size f of
            None \<Rightarrow> (NGX_ERROR, conf)
          | Some fsize \<Rightarrow>
              if fsize \<le> 0 \<or> fsize > int NGX_ANYTLS_MAX_FRAME_DATA then (NGX_ERROR, conf)
              else if \<not> alloc (nat fsize) then (NGX_ERROR, conf)
              else case fa_read f (nat fsize) of
                None \<Rightarrow> (NGX_ERROR, conf)
              | Some bytes \<Rightarrow>
                  let conf' = conf\<lparr>pc_data := Some bytes\<rparr> in
                  if padding_validate (Some bytes) \<noteq> NGX_OK then (NGX_ERROR, conf')
                  else (NGX_OK, conf'\<lparr>pc_md5 := md5_hex md5 bytes\<rparr>))"

section \<open>The grammar of padding schemes\<close>

text \<open>
  A scheme is a sequence of items, each after blanks: a comment runs to the next LF (or the
  end), an entry is \<open>key=value\<close> up to the next CR or LF (or the end).
\<close>

datatype item = Comment buffer | Entry buffer buffer

fun item_bytes :: "item \<Rightarrow> buffer" where
  "item_bytes (Comment c) = 35 # c"
| "item_bytes (Entry k v) = k @ 61 # v"

fun item_wf :: "item \<Rightarrow> bool" where
  "item_wf (Comment c) = list_all (\<lambda>x. x \<noteq> 10) c"
| "item_wf (Entry k v) = (list_all key_char k \<and> (k \<noteq> [] \<longrightarrow> \<not> is_blank (hd k) \<and> hd k \<noteq> 35)
                          \<and> list_all (\<lambda>x. x \<noteq> 10 \<and> x \<noteq> 13) v)"

text \<open>The byte after an item, if any, ends it.\<close>

fun item_ends :: "item \<Rightarrow> buffer \<Rightarrow> bool" where
  "item_ends (Comment c) rest = (rest = [] \<or> hd rest = 10)"
| "item_ends (Entry k v) rest = (rest = [] \<or> hd rest = 10 \<or> hd rest = 13)"

inductive scheme :: "buffer \<Rightarrow> item list \<Rightarrow> bool" where
  scheme_end: "list_all is_blank ws \<Longrightarrow> scheme ws []"
| scheme_item: "list_all is_blank ws \<Longrightarrow> item_wf it \<Longrightarrow> item_ends it rest \<Longrightarrow> scheme rest its
    \<Longrightarrow> scheme (ws @ item_bytes it @ rest) (it # its)"

definition has_stop :: "item list \<Rightarrow> bool" where
  "has_stop its \<longleftrightarrow> (\<exists>v. Entry (bytes_of ''stop'') v \<in> set its)"

section \<open>The validator accepts exactly the schemes with a stop entry\<close>

lemma blank_run:
  "list_all is_blank ws \<Longrightarrow> xs \<noteq> [] \<Longrightarrow> \<not> is_blank (hd xs) \<Longrightarrow> dropWhile is_blank (ws @ xs) = xs"
  by (induction ws) (auto simp: dropWhile_id)

lemma run_take_drop:
  assumes "list_all P xs" and "rest = [] \<or> \<not> P (hd rest)"
  shows "takeWhile P (xs @ rest) = xs" "dropWhile P (xs @ rest) = rest"
  using assms by (induction xs) (auto simp: dropWhile_id takeWhile_eq_Nil_iff)

lemma item_bytes_head:
  "item_wf it \<Longrightarrow> item_bytes it \<noteq> [] \<and> \<not> is_blank (hd (item_bytes it))"
  by (cases it) (auto simp: is_blank_def hd_append)

lemma validate_comment:
  assumes "list_all is_blank ws" and "item_wf (Comment c)" and "item_ends (Comment c) rest"
  shows "validate_loop (ws @ item_bytes (Comment c) @ rest) b = validate_loop rest b"
proof -
  have "dropWhile is_blank (ws @ 35 # c @ rest) = 35 # c @ rest"
    using assms(1) by (intro blank_run) (auto simp: is_blank_def)
  moreover have "dropWhile (\<lambda>c. c \<noteq> 10) (35 # c @ rest) = rest"
    using assms run_take_drop(2) [of "\<lambda>c. c \<noteq> 10" c rest] by auto
  ultimately show ?thesis
    by (subst validate_loop.simps) simp
qed

lemma validate_entry:
  assumes "list_all is_blank ws" and "item_wf (Entry k v)" and "item_ends (Entry k v) rest"
  shows "validate_loop (ws @ item_bytes (Entry k v) @ rest) b =
         validate_loop rest (b \<or> k = bytes_of ''stop'')"
proof -
  let ?p1 = "k @ 61 # v @ rest"
  have "dropWhile is_blank (ws @ ?p1) = ?p1"
    using assms(1,2) by (intro blank_run) (auto simp: is_blank_def hd_append)
  moreover have "takeWhile key_char ?p1 = k" "dropWhile key_char ?p1 = 61 # v @ rest"
    using assms(2) by (auto intro!: run_take_drop simp: key_char_def)
  moreover have "dropWhile (\<lambda>c. c \<noteq> 10 \<and> c \<noteq> 13) (v @ rest) = rest"
    using assms(2,3) by (intro run_take_drop(2)) auto
  moreover have "hd ?p1 \<noteq> 35" "?p1 \<noteq> []"
    using assms(2) by (auto simp: hd_append)
  ultimately show ?thesis
    by (subst validate_loop.simps) (simp add: Let_def)
qed

lemma has_stop_Cons [simp]:
  "has_stop [] = False" "has_stop (Comment c # its) = has_stop its"
  "has_stop (Entry k v # its) = (k = bytes_of ''stop'' \<or> has_stop its)"
  by (auto simp: has_stop_def)

lemma validate_scheme: "scheme p its \<Longrightarrow> validate_loop p b = (b \<or> has_stop its)"
proof (induction arbitrary: b rule: scheme.induct)
  case (scheme_end ws)
  then have "dropWhile is_blank ws = []" by (simp add: list_all_iff)
  then show ?case by (subst validate_loop.simps) simp
next
  case (scheme_item ws it rest its)
  then show ?case
    by (cases it) (simp_all only: validate_comment validate_entry has_stop_Cons disj_assoc)
qed

lemma blank_prefix: "list_all is_blank (takeWhile is_blank p)"
  by (auto simp: list_all_iff dest: set_takeWhileD)

lemma validate_complete:
  "validate_loop p b \<Longrightarrow> \<exists>its. scheme p its"
proof (induction p b rule: validate_loop.induct)
  case (1 p b)
  let ?ws = "takeWhile is_blank p" and ?p1 = "dropWhile is_blank p"
  have p: "p = ?ws @ ?p1" by simp
  consider (empty) "?p1 = []" | (comment) "?p1 \<noteq> []" "hd ?p1 = 35"
    | (entry) "?p1 \<noteq> []" "hd ?p1 \<noteq> 35" by blast
  then show ?case
  proof cases
    case empty
    then have "scheme p []"
      using blank_prefix [of p] p by (metis append_Nil2 scheme_end)
    then show ?thesis by blast
  next
    case comment
    let ?rest = "dropWhile (\<lambda>c. c \<noteq> 10) ?p1"
    have "validate_loop ?rest b"
      using "1.prems" comment by (simp add: validate_loop.simps [of p] Let_def)
    then obtain its where its: "scheme ?rest its"
      using "1.IH"(1) comment by auto
    have cmt: "takeWhile (\<lambda>c. c \<noteq> 10) ?p1 = item_bytes (Comment (tl (takeWhile (\<lambda>c. c \<noteq> 10) ?p1)))"
      using comment by (cases ?p1) auto
    have "set (tl (takeWhile (\<lambda>c. c \<noteq> 10) ?p1)) \<subseteq> set (takeWhile (\<lambda>c. c \<noteq> 10) ?p1)"
      by (cases "takeWhile (\<lambda>c. c \<noteq> 10) ?p1") auto
    then have no10: "10 \<notin> set (tl (takeWhile (\<lambda>c. c \<noteq> 10) ?p1))"
      by (auto dest: set_takeWhileD)
    have "scheme (?ws @ item_bytes (Comment (tl (takeWhile (\<lambda>c. c \<noteq> 10) ?p1))) @ ?rest)
            (Comment (tl (takeWhile (\<lambda>c. c \<noteq> 10) ?p1)) # its)"
      using its no10 hd_dropWhile_False [of "\<lambda>c. c \<noteq> 10" ?p1]
      by (intro scheme_item blank_prefix) (auto simp: list_all_iff)
    then show ?thesis
      unfolding cmt [symmetric] by auto
  next
    case entry
    let ?k = "takeWhile key_char ?p1" and ?eq = "dropWhile key_char ?p1"
    let ?v = "takeWhile (\<lambda>c. c \<noteq> 10 \<and> c \<noteq> 13) (tl ?eq)"
      and ?rest = "dropWhile (\<lambda>c. c \<noteq> 10 \<and> c \<noteq> 13) (tl ?eq)"
    have eq: "?eq \<noteq> []" "hd ?eq = 61"
      and v: "validate_loop ?rest (b \<or> ?k = bytes_of ''stop'')"
      using "1.prems" entry by (simp_all add: validate_loop.simps [of p] Let_def split: if_splits)
    obtain its where its: "scheme ?rest its"
      using "1.IH"(2) [OF refl _ _ refl refl] entry eq v by auto
    have "?p1 = ?k @ 61 # ?v @ ?rest"
      using eq by (metis append_eq_conv_conj takeWhile_dropWhile_id list.collapse)
    then have whole: "p = ?ws @ item_bytes (Entry ?k ?v) @ ?rest"
      using p by simp
    have "?k \<noteq> [] \<Longrightarrow> hd ?k = hd ?p1"
      by (cases ?p1) (auto split: if_splits)
    then have "item_wf (Entry ?k ?v)"
      using entry hd_dropWhile_False [of is_blank p]
      by (auto simp: list_all_iff dest: set_takeWhileD)
    then have "scheme (?ws @ item_bytes (Entry ?k ?v) @ ?rest) (Entry ?k ?v # its)"
      using its hd_dropWhile_False [of "\<lambda>c. c \<noteq> 10 \<and> c \<noteq> 13" "tl ?eq"]
      by (intro scheme_item blank_prefix) auto
    then show ?thesis
      using whole by metis
  qed
qed

text \<open>
  C16: The validator accepts a padding file if and only if the file is a sequence of
  comments and \<open>key=value\<close> entries separated by blanks and line ends, at least one of them
  with the key \<open>stop\<close>.
\<close>

theorem padding_validate_grammar:
  "padding_validate (Some data) = NGX_OK \<longleftrightarrow> (\<exists>its. scheme data its \<and> has_stop its)"
proof -
  have "data = [] \<Longrightarrow> \<not> (\<exists>its. scheme data its \<and> has_stop its)"
    using validate_scheme [of "[]" _ False] by (auto simp: validate_loop.simps [of "[]"])
  then show ?thesis
    using validate_complete [of data False] validate_scheme [of data _ False]
    by (auto simp: padding_validate_def)
qed

lemma default_padding_valid: "padding_validate (Some NGX_ANYTLS_DEFAULT_PADDING) = NGX_OK"
proof -
  have "validate_loop NGX_ANYTLS_DEFAULT_PADDING False"
    by (simp add: NGX_ANYTLS_DEFAULT_PADDING_def bytes_of_def validate_loop.simps
        is_blank_def key_char_def)
  then show ?thesis
    by (simp add: padding_validate_def NGX_ANYTLS_DEFAULT_PADDING_def bytes_of_def)
qed

lemma padding_load_ok:
  assumes "pc_data conf = None"
    and "\<And>path n bytes. fa_read (fs path) n = Some bytes \<Longrightarrow> length bytes = n"
    and "padding_load md5 fs alloc conf = (NGX_OK, conf')"
  shows "\<exists>d. pc_data conf' = Some d \<and> padding_validate (Some d) = NGX_OK \<and> d \<noteq> []
             \<and> length d \<le> NGX_ANYTLS_MAX_FRAME_DATA \<and> pc_md5 conf' = md5_hex md5 d"
proof (cases "pc_file conf")
  case None
  then have "conf' = conf\<lparr>pc_data := Some NGX_ANYTLS_DEFAULT_PADDING,
                           pc_md5 := md5_hex md5 NGX_ANYTLS_DEFAULT_PADDING\<rparr>"
    using assms(1,3) by (simp add: padding_load_def split: if_splits)
  moreover have "NGX_ANYTLS_DEFAULT_PADDING \<noteq> []"
    and "length NGX_ANYTLS_DEFAULT_PADDING \<le> NGX_ANYTLS_MAX_FRAME_DATA"
    by (simp_all add: NGX_ANYTLS_DEFAULT_PADDING_def)
  ultimately show ?thesis
    using default_padding_valid by simp
next
  case (Some path)
  then obtain fsize bytes where
    b: "fa_read (fs path) (nat fsize) = Some bytes" "0 < fsize" "fsize \<le> int NGX_ANYTLS_MAX_FRAME_DATA"
    and v: "padding_validate (Some bytes) = NGX_OK"
    and c: "conf' = conf\<lparr>pc_data := Some bytes, pc_md5 := md5_hex md5 bytes\<rparr>"
    using assms(1,3) by (auto simp: padding_load_def Let_def split: if_splits option.splits)
  have "length bytes = nat fsize" using assms(2) b(1) .
  then show ?thesis
    using b v c by auto
qed

text \<open>
  C23: When the loader succeeds on a configuration without data, the scheme in force is
  valid, not empty, fits the 16 bit length of the frame that announces it, and its digest
  text is that of the very bytes that are announced. The assumption is that a successful
  read yields as many bytes as were asked for.
\<close>

theorem padding_load_valid:
  assumes "pc_data conf = None"
    and "\<And>path n bytes. fa_read (fs path) n = Some bytes \<Longrightarrow> length bytes = n"
    and "padding_load md5 fs alloc conf = (NGX_OK, conf')"
  shows "\<exists>d. pc_data conf' = Some d \<and> padding_validate (Some d) = NGX_OK \<and> d \<noteq> []
             \<and> length d \<le> NGX_ANYTLS_MAX_FRAME_DATA \<and> pc_md5 conf' = md5_hex md5 d"
  by (rule padding_load_ok [OF assms])

definition example_fs :: "buffer \<Rightarrow> file_answer" where
  "example_fs path = \<lparr>fa_opens = True, fa_size = Some 6,
     fa_read = (\<lambda>n. if n = 6 then Some (bytes_of ''stop=0'') else None)\<rparr>"

theorem padding_load_valid_witness:
  "\<exists>conf'. padding_load (\<lambda>d. d) example_fs (\<lambda>_. True)
      \<lparr>pc_file = Some [112], pc_data = None, pc_md5 = []\<rparr> = (NGX_OK, conf')
    \<and> (\<exists>d. pc_data conf' = Some d \<and> length d \<le> NGX_ANYTLS_MAX_FRAME_DATA)"
proof -
  let ?conf = "\<lparr>pc_file = Some [112], pc_data = None, pc_md5 = []\<rparr>"
  have r: "padding_load (\<lambda>d. d) example_fs (\<lambda>_. True) ?conf =
    (NGX_OK, ?conf\<lparr>pc_data := Some (bytes_of ''stop=0''),
                   pc_md5 := md5_hex (\<lambda>d. d) (bytes_of ''stop=0'')\<rparr>)"
    by (simp add: padding_load_def example_fs_def padding_validate_def bytes_of_def
        validate_loop.simps is_blank_def key_char_def)
  have "pc_data ?conf = None" by simp
  moreover have "\<And>path n bytes. fa_read (example_fs path) n = Some bytes \<Longrightarrow> length bytes = n"
    by (auto simp: example_fs_def split: if_splits)
  ultimately show ?thesis
    using padding_load_valid [OF _ _ r] r by blast
qed

end
