(* ===== verification/Socksaddr.thy ===== *)
theory Socksaddr
  imports Protocol
begin

text \<open>
  SOCKS addresses and UDP-over-TCP packets, \<open>src/src/ngx_anytls_socksaddr.c\<close> and its
  header. \<open>ngx_inet_ntop\<close> (\<open>ntop\<close>), \<open>ngx_parse_url\<close>, the decimal rendering of
  \<open>ngx_sprintf("%ui")\<close> and the outcome of the allocation are arguments. The numbers of the
  address types are those of the file: SOCKS 1, 3, 4 and UoT 0, 2, 1.
\<close>

abbreviation (input) "NGX_ANYTLS_MAX_SOCKS_ADDR_LEN \<equiv> 259 :: nat"

datatype addr_mode = ADDR_TCP | ADDR_UOT_V1 | ADDR_UOT_V2_CONNECT | ADDR_UOT_PACKET

datatype family = AF_INET | AF_INET6 | AF_OTHER

record sockaddr =
  sa_family :: family
  sa_ip :: buffer
  sa_port :: "16 word"

text \<open>
  \<open>ngx_anytls_addr_t\<close>: \<open>has_sockaddr\<close>, \<open>sockaddr\<close> and \<open>socklen\<close> are one
  optional field; \<open>host\<close> is the bytes its pointer denotes (the text in \<open>host_buf\<close>
  for an IP address).
\<close>

record addr =
  a_atyp :: nat
  a_host :: buffer
  a_port :: "16 word"
  a_sockaddr :: "sockaddr option"
  a_mode :: addr_mode
  a_consumed :: nat

definition addr_zero :: addr where
  "addr_zero = \<lparr>a_atyp = 0, a_host = [], a_port = 0, a_sockaddr = None, a_mode = ADDR_TCP,
                a_consumed = 0\<rparr>"

definition to_lower :: "byte \<Rightarrow> byte" where
  "to_lower c = (if 65 \<le> c \<and> c \<le> 90 then c + 32 else c)"

definition eq_nocase :: "buffer \<Rightarrow> buffer \<Rightarrow> bool" where
  "eq_nocase a b \<longleftrightarrow> map to_lower a = map to_lower b"

definition detect_uot :: "buffer \<Rightarrow> addr_mode" where
  "detect_uot host =
     (let v2 = bytes_of ''sp.v2.udp-over-tcp.arpa'';
          v1 = bytes_of ''sp.udp-over-tcp.arpa'';
          suffix = bytes_of ''udp-over-tcp.arpa''
      in if length host = length v2 \<and> eq_nocase host v2 then ADDR_UOT_V2_CONNECT
         else if length host = length v1 \<and> eq_nocase host v1 then ADDR_UOT_V1
         else if length host \<ge> length suffix
                 \<and> eq_nocase (drop (length host - length suffix) host) suffix
           then ADDR_UOT_PACKET
         else ADDR_TCP)"

definition parse_socksaddr ::
  "(family \<Rightarrow> buffer \<Rightarrow> buffer) \<Rightarrow> bool \<Rightarrow> buffer \<Rightarrow> addr parsed" where
  "parse_socksaddr ntop alloc data =
     (if length data < 1 then P_again
      else
        let atyp = unat (data ! 0); p = drop 1 data in
        if atyp = 1 then
          (if length p < 6 then P_again
           else let ip = take 4 p; port = be16 (p ! 4) (p ! 5); host = ntop AF_INET ip
                in P_ok \<lparr>a_atyp = atyp, a_host = host, a_port = port,
                         a_sockaddr = Some \<lparr>sa_family = AF_INET, sa_ip = ip, sa_port = port\<rparr>,
                         a_mode = detect_uot host, a_consumed = 7\<rparr>)
        else if atyp = 4 then
          (if length p < 18 then P_again
           else let ip = take 16 p; port = be16 (p ! 16) (p ! 17); host = ntop AF_INET6 ip
                in P_ok \<lparr>a_atyp = atyp, a_host = host, a_port = port,
                         a_sockaddr = Some \<lparr>sa_family = AF_INET6, sa_ip = ip, sa_port = port\<rparr>,
                         a_mode = detect_uot host, a_consumed = 19\<rparr>)
        else if atyp = 3 then
          (if length p < 1 then P_again
           else if length p < unat (p ! 0) + 3 then P_again
           else if \<not> alloc then P_error
           else let n = unat (p ! 0); host = take n (drop 1 p);
                    port = be16 (p ! (1 + n)) (p ! (2 + n))
                in P_ok \<lparr>a_atyp = atyp, a_host = host, a_port = port, a_sockaddr = None,
                         a_mode = detect_uot host, a_consumed = 4 + n\<rparr>)
        else P_error)"

text \<open>
  \<open>ngx_anytls_parse_uot_packet\<close> overwrites the first byte of the caller's buffer while
  it parses the address; the buffer after the call is part of the result.
\<close>

definition parse_uot_packet ::
  "(family \<Rightarrow> buffer \<Rightarrow> buffer) \<Rightarrow> bool \<Rightarrow> buffer \<Rightarrow> buffer \<times> (addr \<times> buffer \<times> nat) parsed" where
  "parse_uot_packet ntop alloc data =
     (if length data < 1 then (data, P_again)
      else
        let atyp = data ! 0 in
        if atyp \<noteq> 0 \<and> atyp \<noteq> 1 \<and> atyp \<noteq> 2 then (data, P_error)
        else
          let mapped = (if atyp = 0 then 1 else if atyp = 1 then 4 else 3);
              data1 = data[0 := mapped];
              r = parse_socksaddr ntop alloc data1;
              data2 = data1[0 := atyp]
          in (data2,
              case r of
                P_again \<Rightarrow> P_again
              | P_error \<Rightarrow> P_error
              | P_ok addr \<Rightarrow>
                  let q = drop (a_consumed addr) data2 in
                  if length q < 2 then P_again
                  else let plen = unat (be16 (q ! 0) (q ! 1)); q' = drop 2 q in
                       if length q' < plen then P_again
                       else P_ok (addr, take plen q', a_consumed addr + 2 + plen)))"

text \<open>
  \<open>ngx_anytls_addr_to_url\<close>: the text handed to \<open>ngx_parse_url\<close> and the number of
  bytes allocated for it.
\<close>

definition url_alloc_len :: "addr \<Rightarrow> nat" where
  "url_alloc_len addr = length (a_host addr) + length ('':65535'')"

definition url_text :: "(nat \<Rightarrow> buffer) \<Rightarrow> addr \<Rightarrow> buffer" where
  "url_text ui addr = a_host addr @ [58] @ ui (unat (a_port addr))"

definition addr_to_url ::
  "(nat \<Rightarrow> buffer) \<Rightarrow> (buffer \<Rightarrow> 16 word \<Rightarrow> sockaddr list option) \<Rightarrow> bool \<Rightarrow> addr \<Rightarrow> sockaddr list option"
  where
  "addr_to_url ui parse_url alloc addr =
     (if \<not> alloc then None else parse_url (url_text ui addr) (a_port addr))"

section \<open>What a SOCKS address on the wire is\<close>

datatype target = T_IPv4 buffer "16 word" | T_IPv6 buffer "16 word" | T_Domain buffer "16 word"

fun wf_target :: "target \<Rightarrow> bool" where
  "wf_target (T_IPv4 ip port) = (length ip = 4)"
| "wf_target (T_IPv6 ip port) = (length ip = 16)"
| "wf_target (T_Domain h port) = (length h \<le> 255)"

fun socks_encode :: "target \<Rightarrow> buffer" where
  "socks_encode (T_IPv4 ip port) = 1 # ip @ put16 port"
| "socks_encode (T_IPv6 ip port) = 4 # ip @ put16 port"
| "socks_encode (T_Domain h port) = 3 # word_of_nat (length h) # h @ put16 port"

fun uot_encode_addr :: "target \<Rightarrow> buffer" where
  "uot_encode_addr (T_IPv4 ip port) = 0 # ip @ put16 port"
| "uot_encode_addr (T_IPv6 ip port) = 1 # ip @ put16 port"
| "uot_encode_addr (T_Domain h port) = 2 # word_of_nat (length h) # h @ put16 port"

fun target_addr :: "(family \<Rightarrow> buffer \<Rightarrow> buffer) \<Rightarrow> target \<Rightarrow> addr" where
  "target_addr ntop (T_IPv4 ip port) =
     \<lparr>a_atyp = 1, a_host = ntop AF_INET ip, a_port = port,
      a_sockaddr = Some \<lparr>sa_family = AF_INET, sa_ip = ip, sa_port = port\<rparr>,
      a_mode = detect_uot (ntop AF_INET ip), a_consumed = 7\<rparr>"
| "target_addr ntop (T_IPv6 ip port) =
     \<lparr>a_atyp = 4, a_host = ntop AF_INET6 ip, a_port = port,
      a_sockaddr = Some \<lparr>sa_family = AF_INET6, sa_ip = ip, sa_port = port\<rparr>,
      a_mode = detect_uot (ntop AF_INET6 ip), a_consumed = 19\<rparr>"
| "target_addr ntop (T_Domain h port) =
     \<lparr>a_atyp = 3, a_host = h, a_port = port, a_sockaddr = None, a_mode = detect_uot h,
      a_consumed = 4 + length h\<rparr>"

text \<open>The number of bytes an address needs, as far as the bytes so far tell.\<close>

definition socks_need :: "buffer \<Rightarrow> nat" where
  "socks_need data =
     (if data = [] then 1
      else if data ! 0 = 1 then 7
      else if data ! 0 = 4 then 19
      else if data ! 0 = 3 then (if length data < 2 then 2 else 4 + unat (data ! 1))
      else 1)"

section \<open>Parsing addresses\<close>

lemma put16_nth: "put16 w ! 0 = ucast (drop_bit 8 w)" "put16 w ! Suc 0 = ucast w"
  by (simp_all add: put16_def)

lemma parse_socksaddr_encode:
  assumes "wf_target t"
  shows "parse_socksaddr ntop True (socks_encode t @ rest) = P_ok (target_addr ntop t)"
proof (cases t)
  case (T_IPv4 ip port)
  then show ?thesis
    using assms by (simp add: parse_socksaddr_def nth_append put16_nth be16_put16 Let_def)
next
  case (T_IPv6 ip port)
  then show ?thesis
    using assms by (simp add: parse_socksaddr_def nth_append put16_nth be16_put16 Let_def)
next
  case (T_Domain h port)
  then have "unat (word_of_nat (length h) :: byte) = length h"
    using assms by (simp add: unat_of_nat)
  with T_Domain show ?thesis
    by (simp add: parse_socksaddr_def nth_append put16_nth be16_put16 Let_def)
qed

lemma parse_socksaddr_ok_need:
  "parse_socksaddr ntop alloc data = P_ok a \<Longrightarrow>
     a_consumed a = socks_need data \<and> socks_need data \<le> length data"
  by (auto simp: parse_socksaddr_def socks_need_def Let_def unat_byte_eq split: if_splits)

lemma parse_socksaddr_again_iff:
  "parse_socksaddr ntop alloc data = P_again \<longleftrightarrow> length data < socks_need data"
  by (auto simp: parse_socksaddr_def socks_need_def Let_def unat_byte_eq neq_Nil_conv
      split: if_splits)

lemma socks_need_le: "socks_need data \<le> NGX_ANYTLS_MAX_SOCKS_ADDR_LEN"
  using unat_byte_less [of "data ! 1"] by (auto simp: socks_need_def)

lemma socks_need_append: "socks_need data \<le> socks_need (data @ ext)"
  by (auto simp: socks_need_def nth_append)

lemma socks_need_append_eq:
  "socks_need data \<le> length data \<Longrightarrow> socks_need (data @ ext) = socks_need data"
  by (auto simp: socks_need_def nth_append split: if_splits)

lemma parse_socksaddr_append:
  assumes "socks_need data \<le> length data"
  shows "parse_socksaddr ntop alloc (data @ ext) = parse_socksaddr ntop alloc data"
proof (cases data)
  case Nil
  then show ?thesis using assms by (simp add: socks_need_def)
next
  case (Cons b p)
  have len: "b = 1 \<Longrightarrow> 6 \<le> length p" "b = 4 \<Longrightarrow> 18 \<le> length p"
    "b = 3 \<Longrightarrow> 0 < length p \<and> unat (p ! 0) + 3 \<le> length p"
    using assms Cons by (auto simp: socks_need_def split: if_splits)
  consider "b = 1" | "b = 4" | "b = 3" | "b \<noteq> 1" "b \<noteq> 4" "b \<noteq> 3" by blast
  then show ?thesis
    by cases (use len in \<open>simp_all add: Cons parse_socksaddr_def unat_byte_eq nth_append Let_def\<close>)
qed

text \<open>
  C13: A well-formed SOCKS address, followed by any payload, is read back with its type, host,
  port and socket address; exactly its own bytes are consumed, so the payload of the first
  data frame starts where the address ends.
\<close>

theorem socks_roundtrip:
  assumes "wf_target t"
  shows "parse_socksaddr ntop True (socks_encode t @ rest) = P_ok (target_addr ntop t)
         \<and> a_consumed (target_addr ntop t) = length (socks_encode t)
         \<and> drop (a_consumed (target_addr ntop t)) (socks_encode t @ rest) = rest"
proof -
  have "a_consumed (target_addr ntop t) = length (socks_encode t)"
    using assms by (cases t) auto
  then show ?thesis
    using assms by (simp add: parse_socksaddr_encode)
qed

theorem socks_roundtrip_witness:
  "parse_socksaddr (\<lambda>_ ip. ip) True ([3, 2, 104, 105, 0, 80] @ [71]) =
     P_ok \<lparr>a_atyp = 3, a_host = [104, 105], a_port = 80, a_sockaddr = None,
           a_mode = ADDR_TCP, a_consumed = 6\<rparr>"
proof -
  have "wf_target (T_Domain [104, 105] 80)" by simp
  from socks_roundtrip [OF this, of "\<lambda>_ ip. ip" "[71]"] show ?thesis
    by (simp add: put16_def detect_uot_def)
qed

text \<open>
  C21: An address is decided by its first 259 bytes at most: the parser asks for more exactly
  while fewer bytes than the address needs are there, never once 259 bytes are there, and
  after that further bytes do not change its answer. This is what the fixed-size
  accumulator for a first data frame split over several frames relies on.
\<close>

theorem socks_parse_incremental:
  "(parse_socksaddr ntop alloc data = P_again \<longleftrightarrow> length data < socks_need data)
   \<and> socks_need data \<le> NGX_ANYTLS_MAX_SOCKS_ADDR_LEN
   \<and> (parse_socksaddr ntop alloc data = P_again
      \<or> parse_socksaddr ntop alloc (data @ ext) = parse_socksaddr ntop alloc data)"
  using parse_socksaddr_again_iff [of ntop alloc data] socks_need_le [of data]
    parse_socksaddr_append [of data ntop alloc ext]
  by auto

section \<open>UoT packets\<close>

lemma uot_encode_addr_socks:
  "(uot_encode_addr t @ xs)[0 := socks_encode t ! 0] = socks_encode t @ xs"
  "hd (uot_encode_addr t) = (case t of T_IPv4 _ _ \<Rightarrow> 0 | T_IPv6 _ _ \<Rightarrow> 1 | T_Domain _ _ \<Rightarrow> 2)"
  by (cases t; simp)+

lemma parse_uot_packet_buffer: "fst (parse_uot_packet ntop alloc data) = data"
  by (cases data) (simp_all add: parse_uot_packet_def Let_def)

text \<open>
  C22: A UoT packet (address, two byte length, payload) is read back with its destination and
  payload and consumed exactly; the byte that the parser overwrites to reuse the SOCKS
  address parser is restored on every path, so the receive buffer is unchanged.
\<close>

theorem uot_packet_roundtrip:
  assumes "wf_target t" and "length d < 65536"
  shows "parse_uot_packet ntop True
           (uot_encode_addr t @ put16 (word_of_nat (length d)) @ d @ rest) =
         (uot_encode_addr t @ put16 (word_of_nat (length d)) @ d @ rest,
          P_ok (target_addr ntop t, d, length (uot_encode_addr t) + 2 + length d))
         \<and> fst (parse_uot_packet ntop alloc data) = data"
proof -
  define D where "D = uot_encode_addr t @ put16 (word_of_nat (length d)) @ d @ rest"
  have "(if D ! 0 = 0 then 1 else if D ! 0 = 1 then 4 else 3) = socks_encode t ! 0"
    and "D ! 0 = 0 \<or> D ! 0 = 1 \<or> D ! 0 = 2" and "D \<noteq> []"
    unfolding D_def by (cases t; simp)+
  moreover have "parse_socksaddr ntop True (D[0 := socks_encode t ! 0]) = P_ok (target_addr ntop t)"
    unfolding D_def using parse_socksaddr_encode [OF assms(1)] by (simp add: uot_encode_addr_socks)
  moreover have consumed: "a_consumed (target_addr ntop t) = length (uot_encode_addr t)"
    using assms(1) by (cases t) auto
  moreover have "drop (length (uot_encode_addr t)) D = put16 (word_of_nat (length d)) @ d @ rest"
    by (simp add: D_def)
  moreover have "unat (word_of_nat (length d) :: 16 word) = length d"
    using assms(2) by (simp add: unat_of_nat)
  ultimately have "parse_uot_packet ntop True D =
      (D, P_ok (target_addr ntop t, d, length (uot_encode_addr t) + 2 + length d))"
    unfolding parse_uot_packet_def Let_def
    by (auto simp: be16_put16 nth_append put16_nth Suc_le_eq)
  then show ?thesis
    by (simp add: parse_uot_packet_buffer D_def)
qed

theorem uot_packet_roundtrip_witness:
  "snd (parse_uot_packet (\<lambda>_ ip. ip) True [0, 127, 0, 0, 1, 0, 53, 0, 2, 7, 8]) =
     P_ok (\<lparr>a_atyp = 1, a_host = [127, 0, 0, 1], a_port = 53,
            a_sockaddr = Some \<lparr>sa_family = AF_INET, sa_ip = [127, 0, 0, 1], sa_port = 53\<rparr>,
            a_mode = ADDR_TCP, a_consumed = 7\<rparr>, [7, 8], 11)"
proof -
  have "wf_target (T_IPv4 [127, 0, 0, 1] 53)" by simp
  from uot_packet_roundtrip [OF this, of "[7, 8]" "\<lambda>_ ip. ip" "[]"] show ?thesis
    by (simp add: put16_def detect_uot_def)
qed

section \<open>The address and packet parsers as incremental parsers\<close>

definition socks_item ::
  "(family \<Rightarrow> buffer \<Rightarrow> buffer) \<Rightarrow> bool \<Rightarrow> buffer \<Rightarrow> (addr \<times> nat) parsed" where
  "socks_item ntop alloc data =
     (case parse_socksaddr ntop alloc data of
        P_ok a \<Rightarrow> P_ok (a, a_consumed a) | P_again \<Rightarrow> P_again | P_error \<Rightarrow> P_error)"

definition uot_item ::
  "(family \<Rightarrow> buffer \<Rightarrow> buffer) \<Rightarrow> bool \<Rightarrow> buffer \<Rightarrow> ((addr \<times> buffer) \<times> nat) parsed" where
  "uot_item ntop alloc data =
     (case snd (parse_uot_packet ntop alloc data) of
        P_ok (a, payload, n) \<Rightarrow> P_ok ((a, payload), n) | P_again \<Rightarrow> P_again | P_error \<Rightarrow> P_error)"

lemma parse_socksaddr_stable:
  "parse_socksaddr ntop alloc data \<noteq> P_again \<Longrightarrow>
     parse_socksaddr ntop alloc (data @ ext) = parse_socksaddr ntop alloc data"
  using parse_socksaddr_again_iff [of ntop alloc data]
  by (intro parse_socksaddr_append) simp

interpretation socks: incremental_parser "socks_item ntop alloc" for ntop alloc
proof
  fix bs ys and a n
  show "0 < n \<and> n \<le> length bs" if "socks_item ntop alloc bs = P_ok (a, n)"
    using that parse_socksaddr_ok_need [of ntop alloc bs a]
    by (auto simp: socks_item_def socks_need_def split: parsed.splits if_splits)
  show "socks_item ntop alloc (bs @ ys) = socks_item ntop alloc bs"
    if "socks_item ntop alloc bs \<noteq> P_again"
    using that parse_socksaddr_stable [of ntop alloc bs ys]
    by (simp add: socks_item_def split: parsed.splits)
qed

lemma uot_packet_ok_len:
  "snd (parse_uot_packet ntop alloc data) = P_ok (a, payload, n) \<Longrightarrow>
     0 < n \<and> n \<le> length data \<and> length payload + a_consumed a + 2 = n"
  using parse_socksaddr_ok_need [of ntop alloc _ a]
  by (auto simp: parse_uot_packet_def Let_def split: if_splits parsed.splits)

text \<open>What follows the address in a packet.\<close>

definition uot_tail :: "addr \<Rightarrow> buffer \<Rightarrow> (addr \<times> buffer \<times> nat) parsed" where
  "uot_tail a data =
     (let q = drop (a_consumed a) data in
      if length q < 2 then P_again
      else let plen = unat (be16 (q ! 0) (q ! 1)); q' = drop 2 q in
           if length q' < plen then P_again
           else P_ok (a, take plen q', a_consumed a + 2 + plen))"

definition uot_atyp :: "byte \<Rightarrow> byte" where
  "uot_atyp b = (if b = 0 then 1 else if b = 1 then 4 else 3)"

definition uot_known :: "byte \<Rightarrow> bool" where
  "uot_known b \<longleftrightarrow> b = 0 \<or> b = 1 \<or> b = 2"

lemma parse_uot_packet_Cons:
  "snd (parse_uot_packet ntop alloc (b # p)) =
     (if \<not> uot_known b then P_error
      else case parse_socksaddr ntop alloc (uot_atyp b # p) of
             P_again \<Rightarrow> P_again | P_error \<Rightarrow> P_error | P_ok a \<Rightarrow> uot_tail a (b # p))"
  by (auto simp: parse_uot_packet_def uot_tail_def uot_atyp_def uot_known_def Let_def split: parsed.split)

lemma uot_tail_stable:
  assumes "uot_tail a data \<noteq> P_again" "a_consumed a \<le> length data"
  shows "uot_tail a (data @ ext) = uot_tail a data"
proof -
  define q where "q = drop (a_consumed a) data"
  have "2 \<le> length q" "unat (be16 (q ! 0) (q ! 1)) \<le> length q - 2"
    using assms(1) by (auto simp: uot_tail_def q_def Let_def split: if_splits)
  moreover obtain x y q' where "q = x # y # q'"
    using calculation(1) by (metis Suc_le_length_iff numeral_2_eq_2)
  moreover have "drop (a_consumed a) (data @ ext) = q @ ext"
    using assms(2) by (simp add: q_def)
  ultimately show ?thesis
    unfolding uot_tail_def q_def [symmetric] Let_def by simp
qed

lemma uot_packet_stable:
  assumes "snd (parse_uot_packet ntop alloc data) \<noteq> P_again"
  shows "snd (parse_uot_packet ntop alloc (data @ ext)) = snd (parse_uot_packet ntop alloc data)"
proof (cases data)
  case Nil
  then show ?thesis using assms by (simp add: parse_uot_packet_def)
next
  case (Cons b p)
  show ?thesis
  proof (cases "parse_socksaddr ntop alloc (uot_atyp b # p) = P_again")
    case True
    then show ?thesis
      using assms Cons by (simp add: parse_uot_packet_Cons split: if_splits)
  next
    case False
    then have "parse_socksaddr ntop alloc (uot_atyp b # p @ ext) = parse_socksaddr ntop alloc (uot_atyp b # p)"
      using parse_socksaddr_stable [of ntop alloc "uot_atyp b # p" ext] by simp
    moreover have "a_consumed a \<le> Suc (length p)"
      if "parse_socksaddr ntop alloc (uot_atyp b # p) = P_ok a" for a
      using parse_socksaddr_ok_need [OF that] by simp
    ultimately show ?thesis
      using assms uot_tail_stable [of _ "b # p" ext]
      by (cases "parse_socksaddr ntop alloc (uot_atyp b # p)")
        (simp_all add: Cons parse_uot_packet_Cons split: if_splits)
  qed
qed

interpretation uot: incremental_parser "uot_item ntop alloc" for ntop alloc
proof
  fix bs ys and p n
  show "0 < n \<and> n \<le> length bs" if "uot_item ntop alloc bs = P_ok (p, n)"
    using that uot_packet_ok_len [of ntop alloc bs]
    by (cases p) (auto simp: uot_item_def split: parsed.splits)
  show "uot_item ntop alloc (bs @ ys) = uot_item ntop alloc bs"
    if "uot_item ntop alloc bs \<noteq> P_again"
    using that uot_packet_stable [of ntop alloc bs ys]
    by (simp add: uot_item_def split: parsed.splits)
qed

end
