(* ===== verification/Auth.thy ===== *)
theory Auth
  imports Protocol
begin

text \<open>
  The authentication phase, \<open>src/src/ngx_anytls_auth.c\<close>, over the fields of
  \<open>ngx_anytls_connection_t\<close> it uses. The connection record of the later theories extends
  \<open>auth_conn\<close>. The array \<open>ac->auth\<close> with its fill count \<open>ac->auth_len\<close> is the list of
  the bytes stored so far; its size is \<open>NGX_ANYTLS_AUTH_BUF_SIZE\<close>.
\<close>

abbreviation (input) "NGX_ANYTLS_AUTH_BUF_SIZE \<equiv> 65569 :: nat"

datatype conn_state = CONN_AUTH | CONN_SETTINGS | CONN_READY | CONN_FALLBACK | CONN_CLOSING

datatype auth_result = AUTH_MORE | AUTH_OK | AUTH_FALLBACK | AUTH_REJECT | AUTH_ERROR

record user =
  u_name :: buffer
  u_hash :: buffer

record auth_step =
  as_result :: auth_result
  as_consumed :: nat
  as_replay :: buffer

record auth_conn =
  ac_auth :: buffer
  ac_auth_padding_len :: "16 word"
  ac_user_name :: buffer
  ac_auth_hash_matched :: bool
  ac_authenticated :: bool
  ac_state :: conn_state

definition auth_hash_eq :: "buffer \<Rightarrow> buffer \<Rightarrow> nat \<Rightarrow> bool" where
  "auth_hash_eq a b n = (foldl (\<lambda>diff i. diff OR (a ! i XOR b ! i)) 0 [0..<n] = 0)"

text \<open>The loop over every configured user; the first match gives the name.\<close>

definition auth_match :: "user list \<Rightarrow> buffer \<Rightarrow> buffer \<Rightarrow> bool \<times> buffer" where
  "auth_match users auth name =
     foldl (\<lambda>(matched, name) u.
              if auth_hash_eq auth (u_hash u) 32
              then (True, if matched then name else u_name u)
              else (matched, name))
           (False, name) users"

text \<open>
  The function body is split at its comments: the padding phase, the hash phase before it
  and the header phase that fills the first 34 bytes. \<open>consumed\<close> is
  \<open>result.consumed\<close> when the phase is entered.
\<close>

definition auth_padding ::
  "'a auth_conn_scheme \<Rightarrow> buffer \<Rightarrow> nat \<Rightarrow> auth_step \<times> 'a auth_conn_scheme" where
  "auth_padding ac data consumed =
     (let plen = be16 (ac_auth ac ! 32) (ac_auth ac ! 33);
          need = 34 + unat plen;
          n = (if length (ac_auth ac) < need
               then min (length data) (need - length (ac_auth ac)) else 0);
          ac' = ac\<lparr>ac_auth_padding_len := plen, ac_auth := ac_auth ac @ take n data\<rparr>
      in if length (ac_auth ac') < need then
           (\<lparr>as_result = AUTH_MORE, as_consumed = consumed + n, as_replay = []\<rparr>, ac')
         else
           (\<lparr>as_result = AUTH_OK, as_consumed = consumed + n, as_replay = []\<rparr>,
            ac'\<lparr>ac_authenticated := True, ac_state := CONN_SETTINGS\<rparr>))"

definition auth_check ::
  "user list \<Rightarrow> 'a auth_conn_scheme \<Rightarrow> buffer \<Rightarrow> nat \<Rightarrow> auth_step \<times> 'a auth_conn_scheme" where
  "auth_check users ac data consumed =
     (if ac_auth_hash_matched ac then auth_padding ac data consumed
      else
        let (matched, name) = auth_match users (ac_auth ac) (ac_user_name ac) in
        if \<not> matched then
          (let n = min (length data) (NGX_ANYTLS_AUTH_BUF_SIZE - length (ac_auth ac));
               ac' = ac\<lparr>ac_auth := ac_auth ac @ take n data\<rparr>
           in (\<lparr>as_result = AUTH_FALLBACK, as_consumed = consumed + n, as_replay = ac_auth ac'\<rparr>,
               ac'))
        else auth_padding (ac\<lparr>ac_user_name := name, ac_auth_hash_matched := True\<rparr>) data consumed)"

definition auth_process ::
  "user list \<Rightarrow> 'a auth_conn_scheme \<Rightarrow> buffer \<Rightarrow> auth_step \<times> 'a auth_conn_scheme" where
  "auth_process users ac data =
     (if length (ac_auth ac) < 34 then
        (let n = min (length data) (34 - length (ac_auth ac));
             ac' = ac\<lparr>ac_auth := ac_auth ac @ take n data\<rparr>
         in if length (ac_auth ac') < 34 then
              (\<lparr>as_result = AUTH_MORE, as_consumed = n, as_replay = []\<rparr>, ac')
            else auth_check users ac' (drop n data) n)
      else auth_check users ac data 0)"

text \<open>
  The reads of one connection as \<open>ngx_anytls_process_client_bytes\<close> feeds them: while the
  answer is \<open>AUTH_MORE\<close> the next chunk is fed; otherwise the unconsumed bytes are left.
\<close>

fun auth_feed ::
  "user list \<Rightarrow> 'a auth_conn_scheme \<Rightarrow> buffer list \<Rightarrow> auth_result \<times> 'a auth_conn_scheme \<times> buffer" where
  "auth_feed users ac [] = (AUTH_MORE, ac, [])"
| "auth_feed users ac (c # cs) =
     (let (st, ac') = auth_process users ac c
      in if as_result st = AUTH_MORE then auth_feed users ac' cs
         else (as_result st, ac', drop (as_consumed st) c @ concat cs))"

section \<open>The verdict on the bytes received so far\<close>

definition matching_users :: "user list \<Rightarrow> buffer \<Rightarrow> user list" where
  "matching_users users bs = filter (\<lambda>u. u_hash u = take 32 bs) users"

definition auth_need :: "buffer \<Rightarrow> nat" where
  "auth_need bs = 34 + unat (be16 (bs ! 32) (bs ! 33))"

definition auth_verdict :: "user list \<Rightarrow> buffer \<Rightarrow> auth_result" where
  "auth_verdict users bs =
     (if length bs < 34 then AUTH_MORE
      else if matching_users users bs = [] then AUTH_FALLBACK
      else if length bs < auth_need bs then AUTH_MORE
      else AUTH_OK)"

definition wf_users :: "user list \<Rightarrow> bool" where
  "wf_users users \<longleftrightarrow> list_all (\<lambda>u. length (u_hash u) = 32) users"

definition auth_fresh :: "'a auth_conn_scheme \<Rightarrow> bool" where
  "auth_fresh ac \<longleftrightarrow> ac_auth ac = [] \<and> \<not> ac_auth_hash_matched ac \<and> \<not> ac_authenticated ac"

text \<open>A connection that has seen \<open>bs\<close> and waits for more.\<close>

definition auth_waiting :: "user list \<Rightarrow> 'a auth_conn_scheme \<Rightarrow> buffer \<Rightarrow> bool" where
  "auth_waiting users ac bs \<longleftrightarrow>
     ac_auth ac = bs \<and> \<not> ac_authenticated ac \<and> auth_verdict users bs = AUTH_MORE
     \<and> (ac_auth_hash_matched ac \<longleftrightarrow> 34 \<le> length bs)
     \<and> (34 \<le> length bs \<longrightarrow> ac_user_name ac = u_name (hd (matching_users users bs)))"

section \<open>The constant-time comparison\<close>

lemma word_xor_eq_0: "(a :: byte) XOR b = 0 \<longleftrightarrow> a = b"
  by (auto simp: bit_eq_iff bit_xor_iff)

lemma foldl_or_zero:
  "foldl (\<lambda>d i. d OR f i) (d :: byte) xs = 0 \<longleftrightarrow> d = 0 \<and> list_all (\<lambda>i. f i = 0) xs"
  by (induction xs arbitrary: d) (auto simp: or_eq_0_iff)

lemma auth_hash_eq_iff:
  assumes "n \<le> length a" and "n \<le> length b"
  shows "auth_hash_eq a b n \<longleftrightarrow> take n a = take n b"
  using assms
  by (auto simp: auth_hash_eq_def foldl_or_zero list_all_iff list_eq_iff_nth_eq word_xor_eq_0)

lemma auth_match_eq:
  assumes "wf_users users" and "32 \<le> length auth"
  shows "auth_match users auth name =
    (case matching_users users auth of [] \<Rightarrow> (False, name) | u # _ \<Rightarrow> (True, u_name u))"
proof -
  let ?step = "\<lambda>(matched, name) u. if auth_hash_eq auth (u_hash u) 32
              then (True, if matched then name else u_name u) else (matched, name)"
  have later: "foldl ?step (True, nm) us = (True, nm)" for nm us
    by (induction us) auto
  have "auth_hash_eq auth (u_hash u) 32 \<longleftrightarrow> u_hash u = take 32 auth" if "u \<in> set users" for u
    using that assms by (auto simp: auth_hash_eq_iff wf_users_def list_all_iff)
  then have "foldl ?step (False, name) users =
      (case filter (\<lambda>u. u_hash u = take 32 auth) users of
         [] \<Rightarrow> (False, name) | u # _ \<Rightarrow> (True, u_name u))"
    by (induction users) (auto simp: later)
  then show ?thesis
    by (simp add: auth_match_def matching_users_def)
qed

text \<open>
  C15: The constant-time comparison over 32 bytes accepts exactly equal hashes, although it
  never leaves the loop early; with it the scan of all users finds a user if and only if one
  has the client's hash, and then reports the first such user.
\<close>

theorem auth_match_correct:
  assumes "wf_users users" and "32 \<le> length auth"
  shows "(fst (auth_match users auth name) \<longleftrightarrow> (\<exists>u. u \<in> set users \<and> u_hash u = take 32 auth))
         \<and> snd (auth_match users auth name) =
             (case matching_users users auth of [] \<Rightarrow> name | u # _ \<Rightarrow> u_name u)"
proof -
  have "(matching_users users auth = []) \<longleftrightarrow> \<not> (\<exists>u. u \<in> set users \<and> u_hash u = take 32 auth)"
    by (auto simp: matching_users_def filter_empty_conv)
  then show ?thesis
    using auth_match_eq [OF assms, of name] by (auto split: list.splits)
qed

theorem auth_match_correct_witness:
  "auth_match [\<lparr>u_name = [97], u_hash = replicate 32 1\<rparr>, \<lparr>u_name = [98], u_hash = replicate 32 2\<rparr>]
     (replicate 34 2) [] = (True, [98])"
proof -
  let ?us = "[\<lparr>u_name = [97], u_hash = replicate 32 1\<rparr>, \<lparr>u_name = [98], u_hash = replicate 32 (2 :: byte)\<rparr>]"
  have "wf_users ?us" and "32 \<le> length (replicate 34 (2 :: byte))"
    by (simp_all add: wf_users_def)
  from auth_match_correct [OF this, of "[]"] show ?thesis
    by (auto simp: matching_users_def prod_eq_iff take_replicate)
qed

section \<open>One chunk\<close>

lemma auth_need_le: "auth_need bs \<le> NGX_ANYTLS_AUTH_BUF_SIZE"
  using unat_u16_less [of "be16 (bs ! 32) (bs ! 33)"] by (simp add: auth_need_def)

lemma matching_users_append:
  "32 \<le> length bs \<Longrightarrow> matching_users users (bs @ c) = matching_users users bs"
  by (simp add: matching_users_def)

lemma auth_need_append: "34 \<le> length bs \<Longrightarrow> auth_need (bs @ c) = auth_need bs"
  by (simp add: auth_need_def nth_append)

lemma auth_process_short:
  assumes "length (ac_auth ac @ c) < 34"
  shows "auth_process users ac c =
    (\<lparr>as_result = AUTH_MORE, as_consumed = length c, as_replay = []\<rparr>,
     ac\<lparr>ac_auth := ac_auth ac @ c\<rparr>)"
  using assms by (simp add: auth_process_def Let_def)

lemma auth_process_long:
  assumes "34 \<le> length (ac_auth ac @ c)"
  shows "\<exists>h d n. auth_process users ac c = auth_check users (ac\<lparr>ac_auth := h\<rparr>) d n
           \<and> h @ d = ac_auth ac @ c \<and> 34 \<le> length h \<and> length h = length (ac_auth ac) + n
           \<and> (length (ac_auth ac) < 34 \<longrightarrow> length h = 34) \<and> (34 \<le> length (ac_auth ac) \<longrightarrow> n = 0)"
proof (cases "length (ac_auth ac) < 34")
  case True
  let ?n = "34 - length (ac_auth ac)"
  have "min (length c) ?n = ?n" using assms by auto
  then have "auth_process users ac c =
      auth_check users (ac\<lparr>ac_auth := ac_auth ac @ take ?n c\<rparr>) (drop ?n c) ?n"
    using True by (simp add: auth_process_def Let_def)
  moreover have "length (ac_auth ac @ take ?n c) = 34"
    using True assms by simp
  ultimately show ?thesis
    using True by (intro exI [of _ "ac_auth ac @ take ?n c"] exI [of _ "drop ?n c"] exI [of _ ?n]) auto
next
  case False
  then show ?thesis
    by (intro exI [of _ "ac_auth ac"] exI [of _ c] exI [of _ 0]) (simp add: auth_process_def)
qed

lemma take_extend:
  "length h \<le> need \<Longrightarrow> h @ take (min (length d) (need - length h)) d = take need (h @ d)"
  by (simp add: min_def)

lemma auth_padding_eq:
  assumes "34 \<le> length (ac_auth ac)" and "length (ac_auth ac) \<le> auth_need (ac_auth ac)"
  shows "auth_padding ac d n =
    (let need = auth_need (ac_auth ac);
         m = n + min (length d) (need - length (ac_auth ac));
         ac' = ac\<lparr>ac_auth_padding_len := be16 (ac_auth ac ! 32) (ac_auth ac ! 33),
                  ac_auth := take need (ac_auth ac @ d)\<rparr>
     in if length (ac_auth ac @ d) < need
        then (\<lparr>as_result = AUTH_MORE, as_consumed = m, as_replay = []\<rparr>, ac')
        else (\<lparr>as_result = AUTH_OK, as_consumed = m, as_replay = []\<rparr>,
              ac'\<lparr>ac_authenticated := True, ac_state := CONN_SETTINGS\<rparr>))"
  using assms take_extend [OF assms(2), of d]
  by (auto simp: auth_padding_def Let_def auth_need_def [symmetric])

lemma auth_waiting_matched:
  "auth_waiting users ac bs \<Longrightarrow> 34 \<le> length bs \<Longrightarrow>
     matching_users users bs \<noteq> [] \<and> length bs < auth_need bs"
  by (auto simp: auth_waiting_def auth_verdict_def split: if_splits)

text \<open>What one call does, as a function of all the bytes received so far.\<close>

definition auth_step_ok :: "user list \<Rightarrow> buffer \<Rightarrow> buffer \<Rightarrow> auth_step \<times> 'a auth_conn_scheme \<Rightarrow> bool" where
  "auth_step_ok users seen c r \<longleftrightarrow>
     (let st = fst r; ac' = snd r; bs = seen @ c in
      as_result st = auth_verdict users bs
      \<and> (case as_result st of
           AUTH_MORE \<Rightarrow> as_consumed st = length c \<and> auth_waiting users ac' bs
         | AUTH_OK \<Rightarrow> as_consumed st = auth_need bs - length seen \<and> ac_auth ac' = take (auth_need bs) bs
               \<and> length seen \<le> auth_need bs \<and> ac_authenticated ac'
               \<and> ac_user_name ac' = u_name (hd (matching_users users bs))
         | AUTH_FALLBACK \<Rightarrow> as_consumed st = min (length c) (NGX_ANYTLS_AUTH_BUF_SIZE - length seen)
               \<and> ac_auth ac' = take NGX_ANYTLS_AUTH_BUF_SIZE bs \<and> as_replay st = ac_auth ac'
               \<and> length seen < 34 \<and> \<not> ac_authenticated ac'
         | _ \<Rightarrow> False))"

lemma auth_check_match:
  assumes wf: "wf_users users" and wait: "auth_waiting users ac seen"
    and app: "h @ d = seen @ c" and h: "34 \<le> length h" "length h = length seen + n"
    and h34: "length seen < 34 \<Longrightarrow> length h = 34" and n0: "34 \<le> length seen \<Longrightarrow> n = 0"
    and match: "matching_users users (seen @ c) \<noteq> []"
  shows "auth_step_ok users seen c (auth_check users (ac\<lparr>ac_auth := h\<rparr>) d n)"
proof -
  let ?bs = "seen @ c"
  have seen: "ac_auth ac = seen" "\<not> ac_authenticated ac"
    using wait by (simp_all add: auth_waiting_def)
  have mh: "matching_users users h = matching_users users ?bs"
    and nh: "auth_need h = auth_need ?bs"
    and nth: "h ! 32 = ?bs ! 32" "h ! 33 = ?bs ! 33"
    using h(1) by (simp_all add: matching_users_append auth_need_append nth_append flip: app)
  have le: "length h \<le> auth_need h"
  proof (cases "34 \<le> length seen")
    case True
    then have "h = seen"
      using n0 h(2) app by (metis add.right_neutral append_eq_append_conv)
    then show ?thesis using auth_waiting_matched [OF wait True] by simp
  next
    case False
    then show ?thesis using h34 by (simp add: auth_need_def)
  qed
  let ?nm = "u_name (hd (matching_users users ?bs))"
  have red: "auth_check users (ac\<lparr>ac_auth := h\<rparr>) d n =
      auth_padding (ac\<lparr>ac_auth := h, ac_user_name := ?nm, ac_auth_hash_matched := True\<rparr>) d n"
  proof (cases "34 \<le> length seen")
    case True
    then have eq: "ac_auth_hash_matched ac" "ac_user_name ac = ?nm"
      using wait by (simp_all add: auth_waiting_def matching_users_append)
    then have same: "ac\<lparr>ac_auth := h, ac_user_name := ?nm, ac_auth_hash_matched := True\<rparr>
        = ac\<lparr>ac_auth := h\<rparr>"
      by simp
    show ?thesis unfolding same using eq by (simp add: auth_check_def)
  next
    case False
    then have "\<not> ac_auth_hash_matched ac"
      using wait by (simp add: auth_waiting_def)
    then show ?thesis
      using match h(1)
      by (auto simp: auth_check_def auth_match_eq [OF wf] mh split: list.split)
  qed
  have v: "auth_verdict users ?bs = (if length ?bs < auth_need ?bs then AUTH_MORE else AUTH_OK)"
    using match h(1) app by (auto simp: auth_verdict_def) (metis length_append le_add1 order.strict_trans1 not_less)+
  have cons: "length ?bs < auth_need ?bs \<Longrightarrow> n + min (length d) (auth_need ?bs - length h) = length c"
    "\<not> length ?bs < auth_need ?bs \<Longrightarrow> n + min (length d) (auth_need ?bs - length h) = auth_need ?bs - length seen"
    using arg_cong [OF app, of length] h(2) le nh by auto
  have "34 \<le> length seen + length c" "length seen \<le> auth_need (seen @ c)"
    using arg_cong [OF app, of length] h le nh by auto
  then show ?thesis
    using cons v seen h(1) le nh
    by (auto simp: red auth_padding_eq auth_step_ok_def Let_def app auth_waiting_def nh)
qed

lemma auth_check_fallback:
  assumes wf: "wf_users users" and wait: "auth_waiting users ac seen"
    and app: "h @ d = seen @ c" and h: "34 \<le> length h" "length h = length seen + n"
    and h34: "length seen < 34 \<Longrightarrow> length h = 34"
    and no: "matching_users users (seen @ c) = []"
  shows "auth_step_ok users seen c (auth_check users (ac\<lparr>ac_auth := h\<rparr>) d n)"
proof -
  have "matching_users users h = []"
    using h(1) no by (simp add: matching_users_append flip: app)
  then have am: "auth_match users h nm = (False, nm)" for nm
    using h(1) by (simp add: auth_match_eq [OF wf])
  have short: "length seen < 34"
  proof (rule ccontr)
    assume "\<not> length seen < 34"
    then have "34 \<le> length seen" by simp
    with auth_waiting_matched [OF wait this] no show False
      by (simp add: matching_users_append)
  qed
  have "\<not> ac_auth_hash_matched ac" "\<not> ac_authenticated ac"
    using wait short by (simp_all add: auth_waiting_def)
  moreover have "auth_verdict users (seen @ c) = AUTH_FALLBACK"
    using no arg_cong [OF app, of length] h(1) by (simp add: auth_verdict_def)
  moreover have "h @ take (min (length d) (NGX_ANYTLS_AUTH_BUF_SIZE - 34)) d
      = take NGX_ANYTLS_AUTH_BUF_SIZE (seen @ c)"
    using take_extend [of h NGX_ANYTLS_AUTH_BUF_SIZE d] h34 [OF short] app by simp
  moreover have "n + min (length d) (NGX_ANYTLS_AUTH_BUF_SIZE - 34)
      = min (length c) (NGX_ANYTLS_AUTH_BUF_SIZE - length seen)"
    using arg_cong [OF app, of length] h34 [OF short] h(2) by auto
  ultimately show ?thesis
    using short h34 [OF short] am
    by (simp add: auth_check_def auth_step_ok_def Let_def)
qed

lemma auth_process_step:
  assumes "wf_users users" and "auth_waiting users ac seen"
  shows "auth_step_ok users seen c (auth_process users ac c)"
proof (cases "34 \<le> length (seen @ c)")
  case True
  have seen: "ac_auth ac = seen" using assms(2) by (simp add: auth_waiting_def)
  obtain h d n where eq: "auth_process users ac c = auth_check users (ac\<lparr>ac_auth := h\<rparr>) d n"
    and r: "h @ d = seen @ c" "34 \<le> length h" "length h = length seen + n"
      "length seen < 34 \<longrightarrow> length h = 34" "34 \<le> length seen \<longrightarrow> n = 0"
    using auth_process_long [of ac c users] True seen by auto
  show ?thesis
    unfolding eq using auth_check_match [OF assms r(1-3)] auth_check_fallback [OF assms r(1-3)] r(4,5)
    by blast
next
  case False
  then show ?thesis
    using assms(2)
    by (auto simp: auth_process_short auth_step_ok_def auth_waiting_def auth_verdict_def)
qed

lemma auth_verdict_decided:
  assumes "auth_verdict users bs \<noteq> AUTH_MORE"
  shows "auth_verdict users (bs @ c) = auth_verdict users bs"
  using assms
  by (auto simp: auth_verdict_def matching_users_append auth_need_append split: if_splits)

lemma auth_feed_waiting:
  assumes "wf_users users"
  shows "auth_waiting users ac seen \<Longrightarrow> auth_feed users ac cs = (r, ac', left) \<Longrightarrow>
    r = auth_verdict users (seen @ concat cs)
    \<and> (r = AUTH_MORE \<longrightarrow> ac_auth ac' = seen @ concat cs \<and> left = [])
    \<and> (r = AUTH_OK \<longrightarrow> ac_authenticated ac' \<and> left = drop (auth_need (seen @ concat cs)) (seen @ concat cs)
         \<and> ac_user_name ac' = u_name (hd (matching_users users (seen @ concat cs))))
    \<and> (r = AUTH_FALLBACK \<longrightarrow> \<not> ac_authenticated ac' \<and> ac_auth ac' @ left = seen @ concat cs)"
proof (induction cs arbitrary: ac seen)
  case Nil
  then show ?case by (auto simp: auth_waiting_def)
next
  case (Cons c cs)
  obtain st ac1 where p: "auth_process users ac c = (st, ac1)" by force
  have ok: "auth_step_ok users seen c (st, ac1)"
    using auth_process_step [OF assms Cons.prems(1), of c] p by simp
  let ?bs = "seen @ c"
  show ?case
  proof (cases "as_result st = AUTH_MORE")
    case True
    then have "auth_waiting users ac1 ?bs" using ok by (simp add: auth_step_ok_def Let_def)
    from Cons.IH [OF this] show ?thesis
      using True Cons.prems(2) p by simp
  next
    case False
    then have r: "r = as_result st" "ac' = ac1" "left = drop (as_consumed st) c @ concat cs"
      using Cons.prems(2) p by simp_all
    have v: "as_result st = auth_verdict users ?bs"
      using ok by (simp add: auth_step_ok_def Let_def)
    then have "auth_verdict users (?bs @ concat cs) = as_result st"
      using False auth_verdict_decided [of users ?bs "concat cs"] by simp
    moreover have "34 \<le> length ?bs"
      using v False by (auto simp: auth_verdict_def split: if_splits)
    then have "auth_need (?bs @ concat cs) = auth_need ?bs"
      "matching_users users (?bs @ concat cs) = matching_users users ?bs"
      by (simp_all only: auth_need_append matching_users_append)
    ultimately show ?thesis
      using ok False r v
      by (auto simp: auth_step_ok_def Let_def min_def auth_verdict_def split: auth_result.splits if_splits)
  qed
qed

lemma auth_fresh_waiting: "auth_fresh ac \<Longrightarrow> auth_waiting users ac []"
  by (simp add: auth_fresh_def auth_waiting_def auth_verdict_def)

section \<open>Properties\<close>

text \<open>
  C12: However the client's bytes are cut into reads, the authentication reaches the same
  verdict as on the whole byte sequence: it succeeds if and only if the first 32 bytes are a
  configured hash and the announced padding has arrived, it then records the first user with
  that hash and leaves exactly the bytes after the padding for the frame parser; it falls
  back as soon as 34 bytes are there and no user matches; otherwise it waits, having stored
  everything.
\<close>

theorem auth_chunking:
  assumes "wf_users users" and "auth_fresh ac"
  shows "(let (r, ac', left) = auth_feed users ac cs; bs = concat cs in
          r = auth_verdict users bs
          \<and> (case r of
               AUTH_OK \<Rightarrow> ac_authenticated ac' \<and> left = drop (auth_need bs) bs
                    \<and> ac_user_name ac' = u_name (hd (matching_users users bs))
             | AUTH_FALLBACK \<Rightarrow> \<not> ac_authenticated ac' \<and> ac_auth ac' @ left = bs
             | _ \<Rightarrow> ac_auth ac' = bs \<and> left = []))"
proof -
  obtain r ac' left where f: "auth_feed users ac cs = (r, ac', left)" by (metis prod_cases3)
  have "r = AUTH_MORE \<or> r = AUTH_OK \<or> r = AUTH_FALLBACK"
    using auth_feed_waiting [OF assms(1) auth_fresh_waiting [OF assms(2)] f]
    by (auto simp: auth_verdict_def split: if_splits)
  then show ?thesis
    using auth_feed_waiting [OF assms(1) auth_fresh_waiting [OF assms(2)] f]
    by (auto simp: f Let_def)
qed

definition auth_zero :: auth_conn where
  "auth_zero = \<lparr>ac_auth = [], ac_auth_padding_len = 0, ac_user_name = [],
                ac_auth_hash_matched = False, ac_authenticated = False, ac_state = CONN_AUTH\<rparr>"

abbreviation (input) "example_user \<equiv> \<lparr>u_name = [97], u_hash = replicate 32 (1 :: byte)\<rparr>"

lemma example_user_wf [simp]: "wf_users [example_user]" "auth_fresh auth_zero"
  by (simp_all add: wf_users_def auth_fresh_def auth_zero_def)

theorem auth_chunking_witness:
  "fst (auth_feed [example_user] auth_zero [replicate 20 1, replicate 12 1 @ [0, 1], [9, 4, 0]]) = AUTH_OK
   \<and> snd (snd (auth_feed [example_user] auth_zero [replicate 20 1, replicate 12 1 @ [0, 1], [9, 4, 0]]))
       = [4, 0]"
proof -
  let ?cs = "[replicate 20 1, replicate 12 1 @ [0, 1], [9, 4, 0]] :: buffer list"
  have bs: "concat ?cs = replicate 32 1 @ [0, 1, 9, 4, 0]"
    by (simp add: replicate_add [symmetric])
  have v: "auth_verdict [example_user] (concat ?cs) = AUTH_OK" "auth_need (concat ?cs) = 35"
    unfolding bs
    by (simp_all add: auth_verdict_def auth_need_def matching_users_def nth_append be16_def)
  have "drop 35 (concat ?cs) = [4, 0]"
    unfolding bs by (simp add: drop_append)
  with auth_chunking [OF example_user_wf(1) example_user_wf(2), of ?cs] v show ?thesis
    by (auto simp: Let_def simp del: auth_feed.simps concat.simps split: prod.splits)
qed

text \<open>
  C17: The authentication buffer never overflows: from a connection that waits, a call on
  any chunk leaves at most \<open>NGX_ANYTLS_AUTH_BUF_SIZE\<close> bytes in it and never reports more
  bytes consumed than the chunk has.
\<close>

theorem auth_buffer_bound:
  assumes "wf_users users" and "auth_waiting users ac seen"
  shows "length (ac_auth (snd (auth_process users ac c))) \<le> NGX_ANYTLS_AUTH_BUF_SIZE
         \<and> as_consumed (fst (auth_process users ac c)) \<le> length c"
proof -
  let ?r = "auth_process users ac c"
  have ok: "auth_step_ok users seen c ?r"
    using assms by (rule auth_process_step)
  consider (more) "as_result (fst ?r) = AUTH_MORE" | (accept) "as_result (fst ?r) = AUTH_OK"
    | (fb) "as_result (fst ?r) = AUTH_FALLBACK"
    using ok by (fastforce simp: auth_step_ok_def Let_def auth_verdict_def split: if_splits)
  then show ?thesis
  proof cases
    case more
    then have w: "auth_waiting users (snd ?r) (seen @ c)" and "as_consumed (fst ?r) = length c"
      using ok by (simp_all add: auth_step_ok_def Let_def)
    moreover have "length (ac_auth (snd ?r)) \<le> NGX_ANYTLS_AUTH_BUF_SIZE"
    proof (cases "34 \<le> length (seen @ c)")
      case True
      then show ?thesis
        using auth_waiting_matched [OF w True] auth_need_le [of "seen @ c"] w
        by (simp add: auth_waiting_def)
    next
      case False
      then show ?thesis using w by (simp add: auth_waiting_def)
    qed
    ultimately show ?thesis by simp
  next
    case accept
    then have "\<not> length (seen @ c) < auth_need (seen @ c)"
      using ok by (auto simp: auth_step_ok_def Let_def auth_verdict_def split: if_splits)
    then show ?thesis
      using ok accept auth_need_le [of "seen @ c"] by (simp add: auth_step_ok_def Let_def)
  next
    case fb
    then show ?thesis using ok by (auto simp: auth_step_ok_def Let_def)
  qed
qed

theorem auth_buffer_bound_witness:
  "length (ac_auth (snd (auth_process [example_user] auth_zero (replicate 70000 1))))
     \<le> NGX_ANYTLS_AUTH_BUF_SIZE"
  using auth_buffer_bound [OF example_user_wf(1) auth_fresh_waiting [OF example_user_wf(2)]]
  by blast

text \<open>
  C18: When authentication fails, the bytes replayed to the fallback server are the first
  65569 bytes received; the call consumes the whole chunk, so that nothing is lost, exactly
  when the bytes so far fit that buffer. A read buffer of 65542 bytes, the size used when
  \<open>anytls_buffer_size\<close> is at least that, can break this after a first read of fewer
  than 34 bytes.
\<close>

theorem auth_fallback_replay:
  assumes "wf_users users" and "auth_waiting users ac seen"
    and "auth_verdict users (seen @ c) = AUTH_FALLBACK"
  shows "as_replay (fst (auth_process users ac c)) = take NGX_ANYTLS_AUTH_BUF_SIZE (seen @ c)
         \<and> (as_consumed (fst (auth_process users ac c)) = length c
            \<longleftrightarrow> length seen + length c \<le> NGX_ANYTLS_AUTH_BUF_SIZE)"
  using auth_process_step [OF assms(1,2), of c] assms(3)
  by (auto simp: auth_step_ok_def Let_def min_def split: if_splits)

theorem auth_fallback_replay_witness:
  "as_consumed (fst (auth_process [example_user] (auth_zero\<lparr>ac_auth := replicate 33 0\<rparr>)
     (replicate 65542 0))) \<noteq> 65542"
proof -
  let ?ac = "auth_zero\<lparr>ac_auth := replicate 33 0\<rparr>"
  have "auth_waiting [example_user] ?ac (replicate 33 0)"
    by (simp add: auth_waiting_def auth_verdict_def auth_zero_def)
  moreover have "auth_verdict [example_user] (replicate 33 0 @ replicate 65542 0) = AUTH_FALLBACK"
    by (simp add: auth_verdict_def matching_users_def take_replicate replicate_add [symmetric])
  ultimately show ?thesis
    using auth_fallback_replay [OF example_user_wf(1), of ?ac "replicate 33 0" "replicate 65542 0"]
    by simp
qed

end
