(* ===== verification/Session_Core.thy ===== *)
theory Session_Core
  imports Socksaddr Auth
begin

text \<open>
  The protocol core of a session, \<open>src/src/ngx_anytls_session_core.c\<close>: it turns one frame
  into at most \<open>NGX_ANYTLS_SESSION_MAX_ACTIONS\<close> actions for the dispatcher and keeps the
  negotiated version. The dispatcher's reassembly of a first data frame that arrives in
  pieces (\<open>src/src/ngx_anytls_session_actions.c\<close>) is here too, over the two stream fields
  it uses; the rest of the dispatcher is in \<open>Session_Actions\<close>.
\<close>

abbreviation (input) "NGX_ANYTLS_SESSION_MAX_ACTIONS \<equiv> 4 :: nat"

datatype action_type = ACTION_NONE | ACTION_QUEUE_CONTROL | ACTION_OPEN_STREAM
  | ACTION_FORWARD_CLIENT_PAYLOAD | ACTION_CLIENT_FIN | ACTION_PROTOCOL_ERROR | ACTION_CLIENT_ALERT

text \<open>\<open>ngx_anytls_action_t\<close>; data and length together are the bytes.\<close>

record action =
  act_type :: action_type
  act_cmd :: nat
  act_stream_id :: "32 word"
  act_data :: buffer

definition action_zero :: action where
  "action_zero = \<lparr>act_type = ACTION_NONE, act_cmd = 0, act_stream_id = 0, act_data = []\<rparr>"

record session_core =
  sc_settings_received :: bool
  sc_peer_version :: nat
  sc_state :: conn_state
  sc_padding_md5 :: buffer
  sc_padding_data :: buffer

definition session_core_init :: "buffer \<Rightarrow> buffer \<Rightarrow> session_core" where
  "session_core_init md5 data =
     \<lparr>sc_settings_received = False, sc_peer_version = 1, sc_state = CONN_AUTH,
      sc_padding_md5 = md5, sc_padding_data = data\<rparr>"

text \<open>\<open>ngx_anytls_session_add_action\<close>: \<open>None\<close> when all slots are in use.\<close>

definition session_add_action :: "action list \<Rightarrow> action \<Rightarrow> action list option" where
  "session_add_action acts a =
     (if length acts \<ge> NGX_ANYTLS_SESSION_MAX_ACTIONS then None else Some (acts @ [a]))"

text \<open>\<open>ngx_strncmp(a, b, n) == 0\<close>: the comparison ends at a common NUL.\<close>

definition strncmp_eq :: "buffer \<Rightarrow> buffer \<Rightarrow> nat \<Rightarrow> bool" where
  "strncmp_eq a b n \<longleftrightarrow> takeWhile (\<lambda>c. c \<noteq> 0) (take n a) = takeWhile (\<lambda>c. c \<noteq> 0) (take n b)"

definition frame_bytes :: "frame \<Rightarrow> buffer" where
  "frame_bytes f = (case f_data f of None \<Rightarrow> [] | Some d \<Rightarrow> d)"

text \<open>Append an action and return \<open>NGX_OK\<close>, or \<open>NGX_ERROR\<close> if there is no slot.\<close>

definition emit ::
  "session_core \<Rightarrow> action list \<Rightarrow> action \<Rightarrow> rc \<times> session_core \<times> action list" where
  "emit core acts a =
     (case session_add_action acts a of
        None \<Rightarrow> (NGX_ERROR, core, acts) | Some acts' \<Rightarrow> (NGX_OK, core, acts'))"

definition handle_settings ::
  "(buffer \<Rightarrow> byte \<Rightarrow> nat option) \<Rightarrow> (nat \<Rightarrow> bool) \<Rightarrow> session_core \<Rightarrow> frame
     \<Rightarrow> rc \<times> session_core \<times> action list" where
  "handle_settings strlchr mem core f =
     (case parse_settings strlchr mem (frame_bytes f) of
        P_ok s \<Rightarrow>
          let core1 = core\<lparr>sc_settings_received := True, sc_peer_version := s_version s,
                           sc_state := CONN_READY\<rparr>;
              (rc1, core2, acts1) =
                (if length (s_padding_md5 s) \<noteq> 32
                    \<or> \<not> strncmp_eq (s_padding_md5 s) (sc_padding_md5 core1) 32
                 then emit core1 []
                        (action_zero\<lparr>act_type := ACTION_QUEUE_CONTROL,
                           act_cmd := NGX_ANYTLS_CMD_UPDATE_PADDING,
                           act_data := sc_padding_data core1\<rparr>)
                 else (NGX_OK, core1, []))
          in if rc1 \<noteq> NGX_OK then (rc1, core2, acts1)
             else if sc_peer_version core2 \<ge> 2
             then emit core2 acts1
                    (action_zero\<lparr>act_type := ACTION_QUEUE_CONTROL,
                       act_cmd := NGX_ANYTLS_CMD_SERVER_SETTINGS,
                       act_data := bytes_of ''v=2''\<rparr>)
             else (NGX_OK, core2, acts1)
      | _ \<Rightarrow> (NGX_ERROR, core, []))"

definition handle_frame ::
  "(buffer \<Rightarrow> byte \<Rightarrow> nat option) \<Rightarrow> (nat \<Rightarrow> bool) \<Rightarrow> session_core \<Rightarrow> frame
     \<Rightarrow> rc \<times> session_core \<times> action list" where
  "handle_frame strlchr mem core f =
     (if f_cmd f = NGX_ANYTLS_CMD_WASTE then (NGX_OK, core, [])
      else if f_cmd f = NGX_ANYTLS_CMD_SETTINGS then handle_settings strlchr mem core f
      else if f_cmd f = NGX_ANYTLS_CMD_HEART_REQUEST then
        emit core [] (action_zero\<lparr>act_type := ACTION_QUEUE_CONTROL,
                        act_cmd := NGX_ANYTLS_CMD_HEART_RESPONSE,
                        act_stream_id := f_stream_id f\<rparr>)
      else if f_cmd f = NGX_ANYTLS_CMD_HEART_RESPONSE then (NGX_OK, core, [])
      else if f_cmd f = NGX_ANYTLS_CMD_SYN then
        (if \<not> sc_settings_received core then
           (let (_, core', acts) =
                  emit core [] (action_zero\<lparr>act_type := ACTION_PROTOCOL_ERROR,
                                  act_data := bytes_of ''client did not send its settings''\<rparr>)
            in (NGX_ERROR, core', acts))
         else if f_stream_id f = 0 then (NGX_ERROR, core, [])
         else emit core [] (action_zero\<lparr>act_type := ACTION_OPEN_STREAM,
                              act_stream_id := f_stream_id f\<rparr>))
      else if f_cmd f = NGX_ANYTLS_CMD_PSH then
        emit core [] (action_zero\<lparr>act_type := ACTION_FORWARD_CLIENT_PAYLOAD,
                        act_stream_id := f_stream_id f, act_data := frame_bytes f\<rparr>)
      else if f_cmd f = NGX_ANYTLS_CMD_FIN then
        emit core [] (action_zero\<lparr>act_type := ACTION_CLIENT_FIN,
                        act_stream_id := f_stream_id f\<rparr>)
      else if f_cmd f = NGX_ANYTLS_CMD_ALERT then
        (if f_data_len f = 0 then (NGX_OK, core, [])
         else emit core [] (action_zero\<lparr>act_type := ACTION_CLIENT_ALERT,
                              act_data := frame_bytes f\<rparr>))
      else (NGX_OK, core, []))"

definition parse_first_psh ::
  "(family \<Rightarrow> buffer \<Rightarrow> buffer) \<Rightarrow> bool \<Rightarrow> buffer \<Rightarrow> (addr \<times> buffer) parsed" where
  "parse_first_psh ntop alloc data =
     (case parse_socksaddr ntop alloc data of
        P_ok a \<Rightarrow> P_ok (a, drop (a_consumed a) data)
      | P_again \<Rightarrow> P_again
      | P_error \<Rightarrow> P_error)"

section \<open>First data frame in pieces\<close>

text \<open>
  \<open>first_psh_acc\<close> (allocated or \<open>NULL\<close>) and its fill count of one stream. The step is
  the branch of \<open>ngx_anytls_session_actions_run\<close> for a stream that still waits for its
  address: \<open>alloc_host\<close> and \<open>alloc_acc\<close> are the outcomes of its two allocations. The
  result is the action's return code, the accumulator afterwards, and the address with the
  payload if the address is complete.
\<close>

record psh_acc =
  pa_alloc :: bool
  pa_bytes :: buffer

definition first_psh ::
  "(family \<Rightarrow> buffer \<Rightarrow> buffer) \<Rightarrow> bool \<Rightarrow> bool \<Rightarrow> psh_acc \<Rightarrow> buffer
     \<Rightarrow> rc \<times> psh_acc \<times> (addr \<times> buffer) option" where
  "first_psh ntop alloc_host alloc_acc acc data =
     (let old = pa_bytes acc; buffered = (old \<noteq> []) in
      if buffered \<and> data = [] then (NGX_OK, acc, None)
      else
        let pdata = (if buffered
                     then old @ take (min (length data)
                                        (NGX_ANYTLS_MAX_SOCKS_ADDR_LEN - length old)) data
                     else data);
            acc1 = acc\<lparr>pa_bytes := []\<rparr>
        in case parse_first_psh ntop alloc_host pdata of
             P_error \<Rightarrow> (NGX_ERROR, acc1, None)
           | P_again \<Rightarrow>
               if length pdata \<ge> NGX_ANYTLS_MAX_SOCKS_ADDR_LEN then (NGX_ERROR, acc1, None)
               else if \<not> pa_alloc acc1 \<and> \<not> alloc_acc then (NGX_ERROR, acc1, None)
               else (NGX_OK, \<lparr>pa_alloc = True, pa_bytes = pdata\<rparr>, None)
           | P_ok (a, payload) \<Rightarrow>
               if buffered then
                 let from_frame = (if a_consumed a > length old then a_consumed a - length old else 0)
                 in (NGX_OK, acc1, Some (a, drop from_frame data))
               else (NGX_OK, acc1, Some (a, payload)))"

text \<open>The data frames of one stream up to the one that completes the address.\<close>

fun psh_feed ::
  "(family \<Rightarrow> buffer \<Rightarrow> buffer) \<Rightarrow> psh_acc \<Rightarrow> buffer list \<Rightarrow> rc \<times> (addr \<times> buffer) option \<times> buffer" where
  "psh_feed ntop acc [] = (NGX_OK, None, pa_bytes acc)"
| "psh_feed ntop acc (c # cs) =
     (case first_psh ntop True True acc c of
        (r, acc', res) \<Rightarrow>
          if r = NGX_OK \<and> res = None then psh_feed ntop acc' cs
          else (r, map_option (\<lambda>(a, payload). (a, payload @ concat cs)) res, pa_bytes acc'))"

definition psh_outcome :: "(addr \<times> buffer) parsed \<Rightarrow> buffer \<Rightarrow> rc \<times> (addr \<times> buffer) option \<times> buffer" where
  "psh_outcome r bs =
     (case r of P_ok x \<Rightarrow> (NGX_OK, Some x, []) | P_error \<Rightarrow> (NGX_ERROR, None, [])
      | P_again \<Rightarrow> (NGX_OK, None, bs))"

section \<open>Actions\<close>

lemma emit_simp: "length acts < NGX_ANYTLS_SESSION_MAX_ACTIONS \<Longrightarrow> emit core acts a = (NGX_OK, core, acts @ [a])"
  by (simp add: emit_def session_add_action_def)

lemma emit_Nil [simp]: "emit core [] a = (NGX_OK, core, [a])"
  by (simp add: emit_simp)

lemma emit_one [simp]: "emit core [b] a = (NGX_OK, core, [b, a])"
  by (simp add: emit_simp)

definition padding_differs :: "session_core \<Rightarrow> settings \<Rightarrow> bool" where
  "padding_differs core s \<longleftrightarrow>
     length (s_padding_md5 s) \<noteq> 32 \<or> \<not> strncmp_eq (s_padding_md5 s) (sc_padding_md5 core) 32"

definition update_padding_action :: "session_core \<Rightarrow> action" where
  "update_padding_action core =
     action_zero\<lparr>act_type := ACTION_QUEUE_CONTROL, act_cmd := NGX_ANYTLS_CMD_UPDATE_PADDING,
       act_data := sc_padding_data core\<rparr>"

definition server_settings_action :: action where
  "server_settings_action =
     action_zero\<lparr>act_type := ACTION_QUEUE_CONTROL, act_cmd := NGX_ANYTLS_CMD_SERVER_SETTINGS,
       act_data := bytes_of ''v=2''\<rparr>"

text \<open>The whole effect of a settings frame, without the intermediate return codes.\<close>

lemma handle_settings_eq:
  "handle_settings strlchr mem core f =
     (case parse_settings strlchr mem (frame_bytes f) of
        P_ok s \<Rightarrow>
          (NGX_OK,
           core\<lparr>sc_settings_received := True, sc_peer_version := s_version s, sc_state := CONN_READY\<rparr>,
           (if padding_differs core s then [update_padding_action core] else [])
           @ (if s_version s \<ge> 2 then [server_settings_action] else []))
      | _ \<Rightarrow> (NGX_ERROR, core, []))"
  unfolding handle_settings_def padding_differs_def
  by (auto simp: update_padding_action_def server_settings_action_def Let_def split: parsed.split)

lemma handle_frame_cases:
  obtains (quiet) "handle_frame strlchr mem core f = (NGX_OK, core, [])"
    "f_cmd f \<noteq> NGX_ANYTLS_CMD_SETTINGS" "f_cmd f \<noteq> NGX_ANYTLS_CMD_SYN"
  | (settings) "f_cmd f = NGX_ANYTLS_CMD_SETTINGS"
    "handle_frame strlchr mem core f = handle_settings strlchr mem core f"
  | (early) "f_cmd f = NGX_ANYTLS_CMD_SYN" "\<not> sc_settings_received core"
    "\<exists>a. handle_frame strlchr mem core f = (NGX_ERROR, core, [a]) \<and> act_type a = ACTION_PROTOCOL_ERROR"
  | (zero) "f_cmd f = NGX_ANYTLS_CMD_SYN" "sc_settings_received core" "f_stream_id f = 0"
    "handle_frame strlchr mem core f = (NGX_ERROR, core, [])"
  | (syn) "f_cmd f = NGX_ANYTLS_CMD_SYN" "sc_settings_received core" "f_stream_id f \<noteq> 0"
    "handle_frame strlchr mem core f =
       (NGX_OK, core, [action_zero\<lparr>act_type := ACTION_OPEN_STREAM, act_stream_id := f_stream_id f\<rparr>])"
  | (one) "f_cmd f \<noteq> NGX_ANYTLS_CMD_SETTINGS" "f_cmd f \<noteq> NGX_ANYTLS_CMD_SYN"
    "\<exists>a. handle_frame strlchr mem core f = (NGX_OK, core, [a])
         \<and> act_type a \<notin> {ACTION_OPEN_STREAM, ACTION_PROTOCOL_ERROR}"
  unfolding handle_frame_def
  by (cases "f_cmd f = NGX_ANYTLS_CMD_SETTINGS"; cases "f_cmd f = NGX_ANYTLS_CMD_SYN";
      cases "f_cmd f = NGX_ANYTLS_CMD_PSH"; cases "f_cmd f = NGX_ANYTLS_CMD_FIN";
      cases "f_cmd f = NGX_ANYTLS_CMD_ALERT"; cases "f_cmd f = NGX_ANYTLS_CMD_HEART_REQUEST";
      cases "f_data_len f = 0")
    (auto simp: action_zero_def split: if_splits)

text \<open>
  C29: On every frame the core answers with at most two actions, so the four action slots are
  never exhausted, and it fails exactly when the settings cannot be stored, when a stream is
  opened before the settings, or when stream 0 is opened.
\<close>

theorem handle_frame_total:
  "let (r, core', acts) = handle_frame strlchr mem core f
   in length acts \<le> 2 \<and> r \<in> {NGX_OK, NGX_ERROR}
      \<and> (r = NGX_ERROR \<longleftrightarrow>
           (f_cmd f = NGX_ANYTLS_CMD_SETTINGS
              \<and> (\<nexists>s. parse_settings strlchr mem (frame_bytes f) = P_ok s))
           \<or> (f_cmd f = NGX_ANYTLS_CMD_SYN \<and> \<not> (sc_settings_received core \<and> f_stream_id f \<noteq> 0)))"
  by (cases rule: handle_frame_cases [of strlchr mem core f])
    (auto simp: handle_settings_eq split: parsed.splits)

text \<open>Frames of one session, handled one after the other.\<close>

primrec session_run ::
  "(buffer \<Rightarrow> byte \<Rightarrow> nat option) \<Rightarrow> (nat \<Rightarrow> bool) \<Rightarrow> session_core \<Rightarrow> frame list \<Rightarrow> session_core" where
  "session_run strlchr mem core [] = core"
| "session_run strlchr mem core (f # fs) =
     session_run strlchr mem (fst (snd (handle_frame strlchr mem core f))) fs"

lemma handle_frame_received:
  "sc_settings_received (fst (snd (handle_frame strlchr mem core f))) \<longleftrightarrow>
     sc_settings_received core
     \<or> f_cmd f = NGX_ANYTLS_CMD_SETTINGS
       \<and> (\<exists>s. parse_settings strlchr mem (frame_bytes f) = P_ok s)"
  by (cases rule: handle_frame_cases [of strlchr mem core f])
    (auto simp: handle_settings_eq split: parsed.splits)

lemma session_run_received:
  "sc_settings_received (session_run strlchr mem core fs) \<longleftrightarrow>
     sc_settings_received core
     \<or> (\<exists>g\<in>set fs. f_cmd g = NGX_ANYTLS_CMD_SETTINGS
          \<and> (\<exists>s. parse_settings strlchr mem (frame_bytes g) = P_ok s))"
  by (induction fs arbitrary: core) (auto simp: handle_frame_received)

lemma handle_frame_open:
  assumes "handle_frame strlchr mem core f = (r, core', acts)" "a \<in> set acts"
    "act_type a = ACTION_OPEN_STREAM"
  shows "sc_settings_received core \<and> f_cmd f = NGX_ANYTLS_CMD_SYN \<and> act_stream_id a = f_stream_id f
    \<and> f_stream_id f \<noteq> 0 \<and> acts = [a] \<and> core' = core"
  using assms
  by (cases rule: handle_frame_cases [of strlchr mem core f])
    (auto simp: handle_settings_eq update_padding_action_def server_settings_action_def action_zero_def
      split: parsed.splits if_splits)

text \<open>
  C28: No stream is opened before the client has sent its settings: whatever frames a client
  sends, an action that opens a stream is the answer to a \<open>SYN\<close> with a stream number
  other than 0, and a settings frame that was read came before it.
\<close>

theorem open_after_settings:
  assumes "handle_frame strlchr mem (session_run strlchr mem (session_core_init md5 data) fs) f
             = (r, core', acts)"
    and "a \<in> set acts" and "act_type a = ACTION_OPEN_STREAM"
  shows "f_cmd f = NGX_ANYTLS_CMD_SYN \<and> act_stream_id a = f_stream_id f \<and> f_stream_id f \<noteq> 0
    \<and> (\<exists>g\<in>set fs. f_cmd g = NGX_ANYTLS_CMD_SETTINGS
         \<and> (\<exists>s. parse_settings strlchr mem (frame_bytes g) = P_ok s))"
  using handle_frame_open [OF assms] session_run_received [of strlchr mem "session_core_init md5 data" fs]
  by (simp add: session_core_init_def)

theorem open_after_settings_witness:
  "\<exists>g\<in>set [\<lparr>f_cmd = 4, f_stream_id = 0, f_data_len = 4, f_data = Some [118, 61, 50, 10]\<rparr>].
     f_cmd g = 4 \<and> (\<exists>s. parse_settings strlchr_ref (\<lambda>_. True) (frame_bytes g) = P_ok s)"
proof -
  let ?g = "\<lparr>f_cmd = 4, f_stream_id = 0, f_data_len = 4, f_data = Some [118, 61, 50, 10]\<rparr>"
  let ?f = "\<lparr>f_cmd = 1, f_stream_id = 7, f_data_len = 0, f_data = None\<rparr>"
  have "list_all clean_kv [([118], [50 :: byte])]" by code_simp
  then have "parse_settings strlchr_ref (\<lambda>_. True) [118, 61, 50, 10] = P_ok (settings_of [([118], [50])])"
    using parse_settings_rendered [OF strlchr_ref_spec, of "\<lambda>_. True" "[([118], [50])]"]
    by (simp add: render_settings_def kv_line_def)
  then have rcv: "sc_settings_received (session_run strlchr_ref (\<lambda>_. True) (session_core_init [] []) [?g])"
    by (simp add: handle_frame_def handle_settings_eq frame_bytes_def)
  define core where "core = session_run strlchr_ref (\<lambda>_. True) (session_core_init [] []) [?g]"
  have "handle_frame strlchr_ref (\<lambda>_. True) core ?f =
    (NGX_OK, core, [action_zero\<lparr>act_type := ACTION_OPEN_STREAM, act_stream_id := 7\<rparr>])"
    using rcv [folded core_def] by (simp add: handle_frame_def)
  from open_after_settings [OF this [unfolded core_def],
      of "action_zero\<lparr>act_type := ACTION_OPEN_STREAM, act_stream_id := 7\<rparr>"]
  show ?thesis by simp
qed



section \<open>Reassembly of the first data frame\<close>

lemma first_psh_step:
  assumes wait: "length (pa_bytes acc) < socks_need (pa_bytes acc)"
  shows "\<exists>acc'. first_psh ntop True True acc c =
    (case parse_first_psh ntop True (pa_bytes acc @ c) of
       P_ok r \<Rightarrow> (NGX_OK, acc', Some r) | P_error \<Rightarrow> (NGX_ERROR, acc', None)
     | P_again \<Rightarrow> (NGX_OK, acc', None))
    \<and> pa_bytes acc' = (if parse_first_psh ntop True (pa_bytes acc @ c) = P_again
                       then pa_bytes acc @ c else [])"
proof -
  let ?old = "pa_bytes acc"
  define pdata where "pdata = (if ?old = [] then c
    else ?old @ take (min (length c) (NGX_ANYTLS_MAX_SOCKS_ADDR_LEN - length ?old)) c)"
  have whole: "parse_socksaddr ntop True pdata = parse_socksaddr ntop True (?old @ c)
      \<and> (parse_socksaddr ntop True pdata = P_again \<longrightarrow> pdata = ?old @ c)"
  proof (cases "pdata = ?old @ c")
    case False
    then have "length pdata = NGX_ANYTLS_MAX_SOCKS_ADDR_LEN" and pre: "\<exists>ext. ?old @ c = pdata @ ext"
      using wait socks_need_le [of ?old]
      by (auto simp: pdata_def intro: exI [of _ "drop (NGX_ANYTLS_MAX_SOCKS_ADDR_LEN - length ?old) c"])
    then have "socks_need pdata \<le> length pdata" using socks_need_le [of pdata] by simp
    with pre show ?thesis
      using parse_socksaddr_append parse_socksaddr_again_iff [of ntop True pdata] by fastforce
  qed simp
  show ?thesis
  proof (cases "?old \<noteq> [] \<and> c = []")
    case True
    have "parse_first_psh ntop True ?old = P_again"
      using wait parse_socksaddr_again_iff [of ntop True ?old] by (simp add: parse_first_psh_def)
    then show ?thesis using True by (auto simp: first_psh_def Let_def)
  next
    case False
    have unf: "first_psh ntop True True acc c =
      (case parse_first_psh ntop True pdata of
         P_error \<Rightarrow> (NGX_ERROR, acc\<lparr>pa_bytes := []\<rparr>, None)
       | P_again \<Rightarrow>
           if length pdata \<ge> NGX_ANYTLS_MAX_SOCKS_ADDR_LEN then (NGX_ERROR, acc\<lparr>pa_bytes := []\<rparr>, None)
           else (NGX_OK, \<lparr>pa_alloc = True, pa_bytes = pdata\<rparr>, None)
       | P_ok (a, payload) \<Rightarrow>
           (NGX_OK, acc\<lparr>pa_bytes := []\<rparr>,
            Some (a, if ?old \<noteq> [] then drop (a_consumed a - length ?old) c else payload)))"
      using False unfolding first_psh_def pdata_def
      by (auto simp: Let_def split: parsed.split)
    show ?thesis
    proof (cases "parse_socksaddr ntop True (?old @ c)")
      case (P_ok a)
      then have "a_consumed a = socks_need (?old @ c)" "socks_need ?old \<le> socks_need (?old @ c)"
        using parse_socksaddr_ok_need [OF P_ok] socks_need_append by auto
      then have "drop (a_consumed a) (?old @ c) = drop (a_consumed a - length ?old) c"
        using wait by simp
      moreover have "parse_first_psh ntop True pdata = P_ok (a, drop (a_consumed a) pdata)"
        "parse_first_psh ntop True (?old @ c) = P_ok (a, drop (a_consumed a) (?old @ c))"
        using P_ok whole by (simp_all add: parse_first_psh_def)
      moreover have "?old = [] \<Longrightarrow> pdata = c" by (simp add: pdata_def)
      ultimately show ?thesis using unf by (cases "?old = []") auto
    next
      case P_again
      then have "length (?old @ c) < NGX_ANYTLS_MAX_SOCKS_ADDR_LEN"
        using parse_socksaddr_again_iff [of ntop True "?old @ c"] socks_need_le [of "?old @ c"] by simp
      moreover have "pdata = ?old @ c" using P_again whole by simp
      moreover have "parse_first_psh ntop True (?old @ c) = P_again"
        using P_again by (simp add: parse_first_psh_def)
      ultimately show ?thesis
        using unf by (intro exI [of _ "\<lparr>pa_alloc = True, pa_bytes = pdata\<rparr>"]) simp
    next
      case P_error
      then have "parse_first_psh ntop True pdata = P_error" "parse_first_psh ntop True (?old @ c) = P_error"
        using whole by (simp_all add: parse_first_psh_def)
      then show ?thesis using unf by (intro exI [of _ "acc\<lparr>pa_bytes := []\<rparr>"]) simp
    qed
  qed
qed

lemma parse_first_psh_stable:
  assumes "parse_first_psh ntop alloc bs \<noteq> P_again"
  shows "parse_first_psh ntop alloc (bs @ ys) =
    (case parse_first_psh ntop alloc bs of P_ok (a, payload) \<Rightarrow> P_ok (a, payload @ ys) | r \<Rightarrow> r)"
proof -
  have "parse_socksaddr ntop alloc (bs @ ys) = parse_socksaddr ntop alloc bs"
    using assms by (intro parse_socksaddr_stable) (auto simp: parse_first_psh_def)
  then show ?thesis
    using parse_socksaddr_ok_need [of ntop alloc bs]
    by (auto simp: parse_first_psh_def split: parsed.splits)
qed

lemma psh_feed_eq:
  "length (pa_bytes acc) < socks_need (pa_bytes acc) \<Longrightarrow>
     psh_feed ntop acc cs = psh_outcome (parse_first_psh ntop True (pa_bytes acc @ concat cs))
       (pa_bytes acc @ concat cs)"
proof (induction cs arbitrary: acc)
  case Nil
  then show ?case
    using parse_socksaddr_again_iff [of ntop True "pa_bytes acc"]
    by (simp add: psh_outcome_def parse_first_psh_def)
next
  case (Cons c cs)
  let ?r = "parse_first_psh ntop True (pa_bytes acc @ c)"
  obtain acc' where st: "first_psh ntop True True acc c =
      (case ?r of P_ok r \<Rightarrow> (NGX_OK, acc', Some r) | P_error \<Rightarrow> (NGX_ERROR, acc', None)
       | P_again \<Rightarrow> (NGX_OK, acc', None))"
    and acc': "pa_bytes acc' = (if ?r = P_again then pa_bytes acc @ c else [])"
    using first_psh_step [OF Cons.prems] by blast
  show ?case
  proof (cases ?r)
    case P_again
    then have "length (pa_bytes acc') < socks_need (pa_bytes acc')"
      using acc' parse_socksaddr_again_iff [of ntop True "pa_bytes acc @ c"]
      by (auto simp: parse_first_psh_def split: parsed.splits)
    from Cons.IH [OF this] show ?thesis using P_again st acc' by simp
  qed (use st acc' parse_first_psh_stable [of ntop True "pa_bytes acc @ c" "concat cs"]
       in \<open>auto simp: psh_outcome_def split: prod.splits\<close>)
qed

text \<open>
  C27: However the data frames of a new stream cut the target address, the dispatcher
  recovers the address and the payload that the concatenation of the frames holds: it opens
  the stream with exactly that address, loses no payload byte, rejects exactly what the
  unfragmented parser rejects, and otherwise keeps every byte it has seen.
\<close>

theorem first_psh_fragmentation:
  "psh_feed ntop \<lparr>pa_alloc = b, pa_bytes = []\<rparr> cs =
     (case parse_first_psh ntop True (concat cs) of
        P_ok (a, payload) \<Rightarrow> (NGX_OK, Some (a, payload), [])
      | P_error \<Rightarrow> (NGX_ERROR, None, [])
      | P_again \<Rightarrow> (NGX_OK, None, concat cs))"
  using psh_feed_eq [of "\<lparr>pa_alloc = b, pa_bytes = []\<rparr>" ntop cs]
  by (auto simp: psh_outcome_def socks_need_def split: parsed.splits)

end
