(* ===== verification/Stream_Table.thy ===== *)
theory Stream_Table
  imports Prelude
begin

text \<open>
  The table of streams of one connection: the open-addressing hash table with tombstones of
  \<open>src/src/ngx_anytls_stream.c\<close> and its sizing in \<open>src/src/ngx_anytls_connection.c\<close>. A
  slot holds \<open>NULL\<close>, the tombstone pointer or a stream; \<open>key st\<close> reads \<open>st->id\<close>.
\<close>

datatype 'a slot = Slot_null | Slot_tomb | Slot_live 'a

record 'a table =
  ht_slots :: "'a slot list"
  ht_mask :: "32 word"

section \<open>Sizing\<close>

text \<open>
  \<open>ngx_anytls_connection_init\<close>: twice \<open>max_streams\<close> rounded up to a power of two by bit
  smearing, and at least 64.
\<close>

definition smear :: "32 word \<Rightarrow> 32 word" where
  "smear x0 =
     (let x1 = x0 OR drop_bit 1 x0;
          x2 = x1 OR drop_bit 2 x1;
          x3 = x2 OR drop_bit 4 x2;
          x4 = x3 OR drop_bit 8 x3
      in x4 OR drop_bit 16 x4)"

definition stream_ht_size :: "64 word \<Rightarrow> 32 word" where
  "stream_ht_size max_streams =
     (let size = smear (ucast (max_streams * 2) - 1) + 1
      in if size < 64 then 64 else size)"

definition ht_create :: "64 word \<Rightarrow> 'a table" where
  "ht_create max_streams =
     (let mask = stream_ht_size max_streams - 1
      in \<lparr>ht_slots = replicate (unat (mask + 1)) Slot_null, ht_mask = mask\<rparr>)"

section \<open>Probing\<close>

text \<open>
  The loops \<open>for (i = 0; i <= mask; i++)\<close>; the counter argument is the number of rounds
  that are left.
\<close>

primrec ht_find_loop :: "('a \<Rightarrow> 32 word) \<Rightarrow> 'a table \<Rightarrow> 32 word \<Rightarrow> nat \<Rightarrow> 32 word \<Rightarrow> 'a option" where
  "ht_find_loop key t sid 0 idx = None"
| "ht_find_loop key t sid (Suc n) idx =
     (case ht_slots t ! unat idx of
        Slot_null \<Rightarrow> None
      | Slot_tomb \<Rightarrow> ht_find_loop key t sid n ((idx + 1) AND ht_mask t)
      | Slot_live st \<Rightarrow>
          if key st = sid then Some st
          else ht_find_loop key t sid n ((idx + 1) AND ht_mask t))"

definition stream_ht_find :: "('a \<Rightarrow> 32 word) \<Rightarrow> 'a table \<Rightarrow> 32 word \<Rightarrow> 'a option" where
  "stream_ht_find key t sid = ht_find_loop key t sid (Suc (unat (ht_mask t))) (sid AND ht_mask t)"

primrec ht_insert_loop :: "'a table \<Rightarrow> 'a \<Rightarrow> nat \<Rightarrow> 32 word \<Rightarrow> 'a table option" where
  "ht_insert_loop t st 0 idx = None"
| "ht_insert_loop t st (Suc n) idx =
     (if ht_slots t ! unat idx = Slot_null \<or> ht_slots t ! unat idx = Slot_tomb
      then Some (t\<lparr>ht_slots := (ht_slots t)[unat idx := Slot_live st]\<rparr>)
      else ht_insert_loop t st n ((idx + 1) AND ht_mask t))"

definition stream_ht_insert :: "('a \<Rightarrow> 32 word) \<Rightarrow> 'a table \<Rightarrow> 'a \<Rightarrow> 'a table option" where
  "stream_ht_insert key t st =
     ht_insert_loop t st (Suc (unat (ht_mask t))) (key st AND ht_mask t)"

primrec ht_remove_loop :: "'a table \<Rightarrow> 'a \<Rightarrow> nat \<Rightarrow> 32 word \<Rightarrow> 'a table" where
  "ht_remove_loop t st 0 idx = t"
| "ht_remove_loop t st (Suc n) idx =
     (if ht_slots t ! unat idx = Slot_live st
      then t\<lparr>ht_slots := (ht_slots t)[unat idx := Slot_tomb]\<rparr>
      else ht_remove_loop t st n ((idx + 1) AND ht_mask t))"

definition stream_ht_remove :: "('a \<Rightarrow> 32 word) \<Rightarrow> 'a table \<Rightarrow> 'a \<Rightarrow> 'a table" where
  "stream_ht_remove key t st =
     ht_remove_loop t st (Suc (unat (ht_mask t))) (key st AND ht_mask t)"

section \<open>Positions of the probe sequence\<close>

text \<open>The table is well shaped when its length is a power of two that the mask reads off.\<close>

definition ht_shape :: "'a table \<Rightarrow> bool" where
  "ht_shape t \<longleftrightarrow> (\<exists>k<32. ht_mask t = mask k \<and> length (ht_slots t) = 2 ^ k)"

abbreviation (input) "ht_len t \<equiv> length (ht_slots t)"

text \<open>The slot reached after \<open>j\<close> probes from \<open>idx\<close>.\<close>

definition probe :: "'a table \<Rightarrow> 32 word \<Rightarrow> nat \<Rightarrow> nat" where
  "probe t idx j = (unat idx + j) mod ht_len t"

lemma mask_unat: "k < 32 \<Longrightarrow> unat (mask k :: 32 word) = 2 ^ k - 1"
  by (subst mask_eq_exp_minus_1 [symmetric]) (rule bit_eqI, auto simp: bit_unsigned_iff bit_mask_iff bit_simps)

lemma unat_pow2: "k < 32 \<Longrightarrow> unat (2 ^ k :: 32 word) = 2 ^ k"
  by (rule bit_eqI) (auto simp: bit_unsigned_iff bit_exp_iff dest: bit_imp_le_length)

lemma ht_shape_len: "ht_shape t \<Longrightarrow> ht_len t = Suc (unat (ht_mask t))"
  by (auto simp: ht_shape_def mask_unat)

lemma ht_shape_pos: "ht_shape t \<Longrightarrow> 0 < ht_len t"
  by (auto simp: ht_shape_def)

lemma unat_and_mask: "k < 32 \<Longrightarrow> unat (x AND mask k :: 32 word) = unat x mod 2 ^ k"
  unfolding take_bit_eq_mask [symmetric] unsigned_take_bit_eq by (rule take_bit_eq_mod)

lemma unat_and_ht_mask: "ht_shape t \<Longrightarrow> unat (x AND ht_mask t) = unat x mod ht_len t"
  by (auto simp: ht_shape_def unat_and_mask)

lemma unat_succ_mod:
  "k < 32 \<Longrightarrow> unat (x + 1 :: 32 word) mod 2 ^ k = Suc (unat x) mod 2 ^ k"
proof -
  assume k: "k < 32"
  have "(2 :: nat) ^ k dvd 2 ^ 32"
    using k by (intro le_imp_power_dvd) simp
  then show ?thesis
    by (simp add: unat_word_ariths mod_mod_cancel)
qed

lemma unat_next:
  "ht_shape t \<Longrightarrow> unat ((idx + 1) AND ht_mask t) = Suc (unat idx) mod ht_len t"
  by (auto simp: ht_shape_def unat_and_mask unat_succ_mod)

lemma probe_0: "ht_shape t \<Longrightarrow> unat idx < ht_len t \<Longrightarrow> probe t idx 0 = unat idx"
  by (simp add: probe_def)

lemma probe_Suc:
  "ht_shape t \<Longrightarrow> probe t ((idx + 1) AND ht_mask t) j = probe t idx (Suc j)"
  by (simp add: probe_def unat_next mod_simps)

lemma probe_lt: "ht_shape t \<Longrightarrow> probe t idx j < ht_len t"
  unfolding probe_def by (rule mod_less_divisor [OF ht_shape_pos])

lemma next_lt: "ht_shape t \<Longrightarrow> unat ((idx + 1) AND ht_mask t) < ht_len t"
  by (simp only: unat_next mod_less_divisor [OF ht_shape_pos])

lemma home_lt: "ht_shape t \<Longrightarrow> unat (x AND ht_mask t) < ht_len t"
  by (simp only: unat_and_ht_mask mod_less_divisor [OF ht_shape_pos])

text \<open>A full round visits every slot.\<close>

lemma probe_onto:
  assumes "ht_shape t" "unat idx < ht_len t" "p < ht_len t"
  shows "\<exists>j<ht_len t. probe t idx j = p"
proof (cases "unat idx \<le> p")
  case True
  then show ?thesis
    using assms by (intro exI [of _ "p - unat idx"]) (simp add: probe_def)
next
  case False
  then show ?thesis
    using assms
    by (intro exI [of _ "p + ht_len t - unat idx"]) (simp add: probe_def)
qed

lemma probe_inj:
  assumes "ht_shape t" "i < ht_len t" "j < ht_len t" "probe t idx i = probe t idx j"
  shows "i = j"
proof -
  have "i mod ht_len t = j mod ht_len t"
    using assms(4) unfolding probe_def by (simp add: nat_mod_eq_iff)
  then show ?thesis using assms by simp
qed

abbreviation (input) "probed t idx j \<equiv> ht_slots t ! probe t idx j"

lemma all_less_Suc_shift: "(\<forall>i<Suc n. P i) \<longleftrightarrow> P 0 \<and> (\<forall>i<n. P (Suc i))"
  using less_Suc_eq_0_disj by auto

lemma find_loop_hit:
  "ht_shape t \<Longrightarrow> unat idx < ht_len t \<Longrightarrow> j < n \<Longrightarrow> probed t idx j = Slot_live st
    \<Longrightarrow> key st = sid
    \<Longrightarrow> \<forall>i<j. probed t idx i \<noteq> Slot_null \<and> (\<forall>x. probed t idx i = Slot_live x \<longrightarrow> key x \<noteq> sid)
    \<Longrightarrow> ht_find_loop key t sid n idx = Some st"
proof (induction n arbitrary: idx j)
  case (Suc n)
  show ?case
  proof (cases j)
    case 0
    then show ?thesis using Suc.prems by (simp add: probe_0)
  next
    case (Suc i)
    have *: "ht_find_loop key t sid n ((idx + 1) AND ht_mask t) = Some st"
      using Suc.prems Suc
      by (intro Suc.IH [of _ i]) (auto simp: probe_Suc next_lt)
    have "probed t idx 0 \<noteq> Slot_null \<and> (\<forall>x. probed t idx 0 = Slot_live x \<longrightarrow> key x \<noteq> sid)"
      using Suc.prems(6) Suc by blast
    then show ?thesis using Suc.prems(1,2) *
      by (auto simp: probe_0 split: slot.split)
  qed
qed simp

lemma find_loop_sound:
  "ht_shape t \<Longrightarrow> unat idx < ht_len t \<Longrightarrow> ht_find_loop key t sid n idx = Some st
    \<Longrightarrow> key st = sid \<and> Slot_live st \<in> set (ht_slots t)"
proof (induction n arbitrary: idx)
  case (Suc n)
  show ?case
  proof (cases "ht_slots t ! unat idx = Slot_live st \<and> key st = sid")
    case True
    then show ?thesis using Suc.prems(2) by (metis nth_mem)
  next
    case False
    then have "ht_find_loop key t sid n ((idx + 1) AND ht_mask t) = Some st"
      using Suc.prems by (auto split: slot.splits if_splits)
    then show ?thesis
      using Suc.IH Suc.prems(1) next_lt by blast
  qed
qed simp

lemma insert_loop_Some:
  "ht_shape t \<Longrightarrow> unat idx < ht_len t \<Longrightarrow> ht_insert_loop t st n idx = Some t'
    \<Longrightarrow> \<exists>j<n. (\<forall>x. probed t idx j \<noteq> Slot_live x) \<and> (\<forall>i<j. probed t idx i \<noteq> Slot_null)
          \<and> t' = t\<lparr>ht_slots := (ht_slots t)[probe t idx j := Slot_live st]\<rparr>"
proof (induction n arbitrary: idx)
  case (Suc n)
  show ?case
  proof (cases "\<exists>x. ht_slots t ! unat idx = Slot_live x")
    case True
    then have "ht_insert_loop t st n ((idx + 1) AND ht_mask t) = Some t'"
      using Suc.prems by auto
    from Suc.IH [OF Suc.prems(1) next_lt [OF Suc.prems(1)] this] obtain j where
      j: "j < n" "\<forall>x. probed t idx (Suc j) \<noteq> Slot_live x" "\<forall>i<j. probed t idx (Suc i) \<noteq> Slot_null"
        "t' = t\<lparr>ht_slots := (ht_slots t)[probe t idx (Suc j) := Slot_live st]\<rparr>"
      using Suc.prems(1) by (auto simp: probe_Suc)
    then show ?thesis
      using True Suc.prems(1,2)
      by (intro exI [of _ "Suc j"]) (auto simp: all_less_Suc_shift probe_0)
  next
    case False
    then have "t' = t\<lparr>ht_slots := (ht_slots t)[unat idx := Slot_live st]\<rparr>"
      using Suc.prems by (cases "ht_slots t ! unat idx") auto
    then show ?thesis
      using False Suc.prems(1,2) by (intro exI [of _ 0]) (auto simp: probe_0)
  qed
qed simp

lemma insert_loop_total:
  "ht_shape t \<Longrightarrow> unat idx < ht_len t \<Longrightarrow> j < n \<Longrightarrow> \<forall>x. probed t idx j \<noteq> Slot_live x
    \<Longrightarrow> \<exists>t'. ht_insert_loop t st n idx = Some t'"
proof (induction n arbitrary: idx j)
  case (Suc n)
  show ?case
  proof (cases j)
    case 0
    then show ?thesis using Suc.prems by (cases "ht_slots t ! unat idx") (auto simp: probe_0)
  next
    case (Suc i)
    then show ?thesis
      using Suc.IH [of "(idx + 1) AND ht_mask t" i] Suc.prems
      by (auto simp: probe_Suc next_lt)
  qed
qed simp

lemma remove_loop_hit:
  "ht_shape t \<Longrightarrow> unat idx < ht_len t \<Longrightarrow> j < n \<Longrightarrow> probed t idx j = Slot_live st
    \<Longrightarrow> \<forall>i<j. probed t idx i \<noteq> Slot_live st
    \<Longrightarrow> ht_remove_loop t st n idx = t\<lparr>ht_slots := (ht_slots t)[probe t idx j := Slot_tomb]\<rparr>"
proof (induction n arbitrary: idx j)
  case (Suc n)
  show ?case
  proof (cases j)
    case 0
    then show ?thesis using Suc.prems by (simp add: probe_0)
  next
    case (Suc i)
    have "probed t idx 0 \<noteq> Slot_live st"
      using Suc.prems(5) Suc by blast
    then show ?thesis
      using Suc.IH [of "(idx + 1) AND ht_mask t" i] Suc.prems Suc
      by (auto simp: probe_Suc next_lt probe_0)
  qed
qed simp

section \<open>The table as a store\<close>

text \<open>
  Invariant: well shaped, at most one live slot per identifier, and between the home slot of
  a live stream and its slot there is no empty one, so that a probe for it does not stop
  early.
\<close>

definition home :: "('a \<Rightarrow> 32 word) \<Rightarrow> 'a table \<Rightarrow> 'a \<Rightarrow> 32 word" where
  "home key t st = key st AND ht_mask t"

definition reach_at :: "('a \<Rightarrow> 32 word) \<Rightarrow> 'a table \<Rightarrow> 'a \<Rightarrow> nat \<Rightarrow> bool" where
  "reach_at key t st j \<longleftrightarrow>
     j < ht_len t \<and> probed t (home key t st) j = Slot_live st
     \<and> (\<forall>i<j. probed t (home key t st) i \<noteq> Slot_null)"

definition ht_live :: "'a table \<Rightarrow> 'a set" where
  "ht_live t = {st. Slot_live st \<in> set (ht_slots t)}"

definition ht_inv :: "('a \<Rightarrow> 32 word) \<Rightarrow> 'a table \<Rightarrow> bool" where
  "ht_inv key t \<longleftrightarrow> ht_shape t
     \<and> (\<forall>p<ht_len t. \<forall>q<ht_len t. \<forall>x y. ht_slots t ! p = Slot_live x \<longrightarrow> ht_slots t ! q = Slot_live y
          \<longrightarrow> key x = key y \<longrightarrow> p = q)
     \<and> (\<forall>x\<in>ht_live t. \<exists>j. reach_at key t x j)"

lemma ht_invD:
  assumes "ht_inv key t"
  shows ht_inv_shape: "ht_shape t"
    and ht_inv_unique: "p < ht_len t \<Longrightarrow> q < ht_len t \<Longrightarrow> ht_slots t ! p = Slot_live x
      \<Longrightarrow> ht_slots t ! q = Slot_live y \<Longrightarrow> key x = key y \<Longrightarrow> p = q"
    and ht_inv_reach: "x \<in> ht_live t \<Longrightarrow> \<exists>j. reach_at key t x j"
  using assms unfolding ht_inv_def by blast+

lemma ht_live_nth: "p < ht_len t \<Longrightarrow> ht_slots t ! p = Slot_live x \<Longrightarrow> x \<in> ht_live t"
  unfolding ht_live_def by (metis mem_Collect_eq nth_mem)

lemma ht_live_key_inj:
  "ht_inv key t \<Longrightarrow> x \<in> ht_live t \<Longrightarrow> y \<in> ht_live t \<Longrightarrow> key x = key y \<Longrightarrow> x = y"
proof -
  assume inv: "ht_inv key t" and "x \<in> ht_live t" "y \<in> ht_live t" and key: "key x = key y"
  then obtain p q where p: "p < ht_len t" "ht_slots t ! p = Slot_live x"
    and q: "q < ht_len t" "ht_slots t ! q = Slot_live y"
    unfolding ht_live_def in_set_conv_nth by blast
  from ht_inv_unique [OF inv p(1) q(1) p(2) q(2) key] p q show "x = y" by simp
qed

lemma finite_ht_live: "finite (ht_live t)"
proof -
  have "ht_live t = Slot_live -` set (ht_slots t)"
    unfolding ht_live_def by auto
  then show ?thesis by (simp add: finite_vimageI inj_def)
qed

abbreviation (input) "ht_upd t p v \<equiv> t\<lparr>ht_slots := (ht_slots t)[p := v]\<rparr>"

lemma ht_upd_simps [simp]:
  "ht_shape (ht_upd t p v) = ht_shape t" "probe (ht_upd t p v) = probe t"
  "home key (ht_upd t p v) = home key t"
  by (auto simp: ht_shape_def probe_def home_def fun_eq_iff)

lemma list_update_neq:
  "xs ! q \<noteq> c \<Longrightarrow> v \<noteq> c \<Longrightarrow> xs[p := v] ! q \<noteq> c"
  by (metis list_update_beyond not_less nth_list_update_eq nth_list_update_neq)

lemma reach_at_upd:
  "reach_at key t x j \<Longrightarrow> ht_shape t \<Longrightarrow> v \<noteq> Slot_null \<Longrightarrow> probe t (home key t x) j \<noteq> p
    \<Longrightarrow> reach_at key (ht_upd t p v) x j"
  by (auto simp: reach_at_def list_update_neq)

lemma ht_live_insert_free:
  assumes "p < ht_len t" "\<forall>x. ht_slots t ! p \<noteq> Slot_live x"
  shows "ht_live (ht_upd t p (Slot_live st)) = insert st (ht_live t)"
proof -
  have "Slot_live x \<in> set ((ht_slots t)[p := Slot_live st]) \<longleftrightarrow>
          x = st \<or> Slot_live x \<in> set (ht_slots t)" for x
    using assms unfolding in_set_conv_nth by (auto simp: nth_list_update)
  then show ?thesis by (auto simp: ht_live_def)
qed

lemma ht_live_remove:
  assumes inv: "ht_inv key t" and p: "p < ht_len t" "ht_slots t ! p = Slot_live st"
  shows "ht_live (ht_upd t p Slot_tomb) = ht_live t - {st}"
proof -
  have "Slot_live x \<in> set ((ht_slots t)[p := Slot_tomb]) \<longleftrightarrow>
          (\<exists>q<ht_len t. q \<noteq> p \<and> ht_slots t ! q = Slot_live x)" for x
    using p unfolding in_set_conv_nth by (auto simp: nth_list_update)
  moreover have "(\<exists>q<ht_len t. q \<noteq> p \<and> ht_slots t ! q = Slot_live x) \<longleftrightarrow>
          Slot_live x \<in> set (ht_slots t) \<and> x \<noteq> st" for x
    using p ht_inv_unique [OF inv _ p(1) _ p(2), of _ x] unfolding in_set_conv_nth by force
  ultimately show ?thesis by (auto simp: ht_live_def)
qed

lemma ht_full:
  assumes "\<forall>p<ht_len t. \<exists>x. ht_slots t ! p = Slot_live x" "ht_inv key t"
  shows "card (ht_live t) = ht_len t"
proof -
  define g where "g p = (case ht_slots t ! p of Slot_live x \<Rightarrow> x | _ \<Rightarrow> undefined)" for p
  have g: "ht_slots t ! p = Slot_live (g p)" if "p < ht_len t" for p
    using assms(1) that by (auto simp: g_def)
  have "bij_betw g {..<ht_len t} (ht_live t)"
    unfolding bij_betw_def
  proof
    show "inj_on g {..<ht_len t}"
      using ht_inv_unique [OF assms(2)] g by (auto simp: inj_on_def)
    show "g ` {..<ht_len t} = ht_live t"
      using g ht_live_nth by (fastforce simp: ht_live_def in_set_conv_nth)
  qed
  then show ?thesis using bij_betw_same_card by fastforce
qed

lemma stream_ht_find_iff:
  assumes inv: "ht_inv key t"
  shows "stream_ht_find key t sid = Some st \<longleftrightarrow> st \<in> ht_live t \<and> key st = sid"
proof
  assume "stream_ht_find key t sid = Some st"
  then show "st \<in> ht_live t \<and> key st = sid"
    unfolding stream_ht_find_def ht_live_def
    using find_loop_sound [OF ht_inv_shape [OF inv] home_lt [OF ht_inv_shape [OF inv]]] by blast
next
  assume st: "st \<in> ht_live t \<and> key st = sid"
  note sh = ht_inv_shape [OF inv]
  obtain j where j: "j < ht_len t" "probed t (home key t st) j = Slot_live st"
    "\<forall>i<j. probed t (home key t st) i \<noteq> Slot_null"
    using ht_inv_reach [OF inv, of st] st unfolding reach_at_def by blast
  have "key x \<noteq> sid" if "i < j" "probed t (home key t st) i = Slot_live x" for i x
    using ht_inv_unique [OF inv probe_lt [OF sh] probe_lt [OF sh] that(2) j(2)]
      probe_inj [OF sh _ j(1), of i] that(1) j(1) st by auto
  then show "stream_ht_find key t sid = Some st"
    unfolding stream_ht_find_def using j st home_lt [OF sh]
    by (intro find_loop_hit [OF sh, of _ j]) (auto simp: home_def ht_shape_len [OF sh])
qed

lemma stream_ht_insert_total:
  assumes inv: "ht_inv key t" and room: "card (ht_live t) < ht_len t"
  shows "\<exists>t'. stream_ht_insert key t st = Some t'"
proof -
  note sh = ht_inv_shape [OF inv]
  obtain p where p: "p < ht_len t" "\<forall>x. ht_slots t ! p \<noteq> Slot_live x"
    using ht_full [OF _ inv] room by force
  from probe_onto [OF sh home_lt [OF sh] p(1), of "key st"] obtain j where
    "j < ht_len t" "probe t (key st AND ht_mask t) j = p" by blast
  then show ?thesis
    unfolding stream_ht_insert_def
    using p by (intro insert_loop_total [OF sh home_lt [OF sh], of j]) (auto simp: ht_shape_len [OF sh])
qed

lemma stream_ht_insert_Some:
  assumes inv: "ht_inv key t" and new: "\<forall>x\<in>ht_live t. key x \<noteq> key st"
    and ins: "stream_ht_insert key t st = Some t'"
  shows "ht_inv key t'" "ht_live t' = insert st (ht_live t)" "ht_len t' = ht_len t"
proof -
  note sh = ht_inv_shape [OF inv]
  let ?h = "home key t st"
  obtain j where j: "j < ht_len t" "\<forall>x. probed t ?h j \<noteq> Slot_live x"
    "\<forall>i<j. probed t ?h i \<noteq> Slot_null" and t': "t' = ht_upd t (probe t ?h j) (Slot_live st)"
    using insert_loop_Some [OF sh home_lt [OF sh] ins [unfolded stream_ht_insert_def]]
    by (auto simp: home_def ht_shape_len [OF sh])
  let ?p = "probe t ?h j"
  have p: "?p < ht_len t" by (rule probe_lt [OF sh])
  show live: "ht_live t' = insert st (ht_live t)"
    unfolding t' using ht_live_insert_free [OF p j(2)] .
  show "ht_len t' = ht_len t" by (simp add: t')
  have "reach_at key t' st j"
    using j p sh probe_inj [OF sh _ j(1)]
    by (auto simp: reach_at_def t' nth_list_update)
  moreover have "\<exists>i. reach_at key t' x i" if x: "x \<in> ht_live t" for x
  proof -
    obtain i where i: "reach_at key t x i"
      using ht_inv_reach [OF inv x] by blast
    then have "probe t (home key t x) i \<noteq> ?p"
      using j(2) by (auto simp: reach_at_def)
    then show ?thesis
      unfolding t' using reach_at_upd [OF i sh] by blast
  qed
  moreover have "q = r" if "q < ht_len t" "r < ht_len t" "ht_slots t' ! q = Slot_live x"
    "ht_slots t' ! r = Slot_live y" "key x = key y" for q r x y
    using that p new ht_inv_unique [OF inv that(1,2)] ht_live_nth [OF that(1)] ht_live_nth [OF that(2)]
    by (fastforce simp: t' nth_list_update split: if_splits)
  ultimately show "ht_inv key t'"
    using sh live by (auto simp: ht_inv_def t')
qed

lemma stream_ht_remove_live:
  assumes inv: "ht_inv key t" and st: "st \<in> ht_live t"
  shows "ht_inv key (stream_ht_remove key t st)"
    "ht_live (stream_ht_remove key t st) = ht_live t - {st}"
    "ht_len (stream_ht_remove key t st) = ht_len t"
proof -
  note sh = ht_inv_shape [OF inv]
  let ?h = "home key t st"
  obtain j where j: "j < ht_len t" "probed t ?h j = Slot_live st"
    using ht_inv_reach [OF inv st] unfolding reach_at_def by blast
  let ?p = "probe t ?h j"
  have p: "?p < ht_len t" by (rule probe_lt [OF sh])
  have first: "probed t ?h i \<noteq> Slot_live st" if "i < j" for i
    using ht_inv_unique [OF inv probe_lt [OF sh] p _ j(2)] probe_inj [OF sh _ j(1), of i] that j(1)
    by auto
  have t': "stream_ht_remove key t st = ht_upd t ?p Slot_tomb"
    using first j home_lt [OF sh, of "key st"]
    unfolding stream_ht_remove_def home_def
    by (intro remove_loop_hit [OF sh]) (auto simp: ht_shape_len [OF sh])
  show live: "ht_live (stream_ht_remove key t st) = ht_live t - {st}"
    unfolding t' by (rule ht_live_remove [OF inv p j(2)])
  show "ht_len (stream_ht_remove key t st) = ht_len t" by (simp add: t')
  have "\<exists>i. reach_at key (ht_upd t ?p Slot_tomb) x i" if x: "x \<in> ht_live t" "x \<noteq> st" for x
  proof -
    obtain i where i: "reach_at key t x i"
      using ht_inv_reach [OF inv x(1)] by blast
    then have "probe t (home key t x) i \<noteq> ?p"
      using j(2) x(2) by (auto simp: reach_at_def)
    then show ?thesis
      using reach_at_upd [OF i sh, of Slot_tomb] by blast
  qed
  moreover have "q = r" if "q < ht_len t" "r < ht_len t" "(ht_slots t)[?p := Slot_tomb] ! q = Slot_live x"
    "(ht_slots t)[?p := Slot_tomb] ! r = Slot_live y" "key x = key y" for q r x y
    using that p ht_inv_unique [OF inv that(1,2)] by (auto simp: nth_list_update split: if_splits)
  ultimately show "ht_inv key (stream_ht_remove key t st)"
    using sh live by (auto simp: ht_inv_def t')
qed

section \<open>Bit smearing rounds up to a power of two\<close>

lemma smear_step:
  fixes x s :: "32 word"
  assumes bits: "\<And>n. bit s n \<longleftrightarrow> (\<exists>d\<le>a. bit x (n + d))" and b: "b = Suc a" and c: "c = Suc (2 * a)"
  shows "bit (s OR drop_bit b s) n \<longleftrightarrow> (\<exists>d\<le>c. bit x (n + d))"
proof -
  have "(\<exists>d\<le>c. P d) \<longleftrightarrow> (\<exists>d\<le>a. P d) \<or> (\<exists>d\<le>a. P (b + d))" for P
  proof
    assume "\<exists>d\<le>c. P d"
    then obtain d where "d \<le> c" "P d" by blast
    then show "(\<exists>d\<le>a. P d) \<or> (\<exists>d\<le>a. P (b + d))"
      using b c by (cases "d \<le> a") (blast, auto intro: exI [of _ "d - b"])
  next
    assume "(\<exists>d\<le>a. P d) \<or> (\<exists>d\<le>a. P (b + d))"
    then obtain d where "P d \<and> d \<le> a \<or> P (b + d) \<and> d \<le> a" by blast
    then show "\<exists>d\<le>c. P d"
      using b c by (intro exI [of _ "if P d then d else b + d"]) auto
  qed
  from this [of "\<lambda>d. bit x (n + d)"] show ?thesis
    by (simp add: bit_or_iff bit_drop_bit_eq bits ac_simps)
qed

lemma bit_smear: "bit (smear x) n \<longleftrightarrow> (\<exists>d\<le>31. bit x (n + d))"
proof -
  define x1 where "x1 = x OR drop_bit 1 x"
  define x2 where "x2 = x1 OR drop_bit 2 x1"
  define x3 where "x3 = x2 OR drop_bit 4 x2"
  define x4 where "x4 = x3 OR drop_bit 8 x3"
  have 1: "bit x1 n \<longleftrightarrow> (\<exists>d\<le>1. bit x (n + d))" for n
    unfolding x1_def by (rule smear_step [of x 0]) simp_all
  have 2: "bit x2 n \<longleftrightarrow> (\<exists>d\<le>3. bit x (n + d))" for n
    unfolding x2_def by (rule smear_step [OF 1]) simp_all
  have 3: "bit x3 n \<longleftrightarrow> (\<exists>d\<le>7. bit x (n + d))" for n
    unfolding x3_def by (rule smear_step [OF 2]) simp_all
  have 4: "bit x4 n \<longleftrightarrow> (\<exists>d\<le>15. bit x (n + d))" for n
    unfolding x4_def by (rule smear_step [OF 3]) simp_all
  have "smear x = x4 OR drop_bit 16 x4"
    unfolding smear_def Let_def x4_def x3_def x2_def x1_def ..
  then show ?thesis
    using smear_step [OF 4, of 16 31 n] by simp
qed

lemma highest_bit:
  fixes x :: "32 word"
  assumes "x \<noteq> 0"
  obtains h where "h < 32" "bit x h" "\<And>n. bit x n \<Longrightarrow> n \<le> h"
proof -
  let ?B = "{n. bit x n}"
  have fin: "finite ?B"
    by (rule finite_subset [of _ "{..<32}"]) (auto dest: bit_imp_le_length)
  have "?B \<noteq> {}" using assms bit_eq_iff [of x 0] by auto
  then have "Max ?B \<in> ?B" using fin by (rule Max_in [rotated])
  then show thesis
    using that [of "Max ?B"] Max_ge [OF fin] bit_imp_le_length [of x "Max ?B"] by auto
qed

lemma smear_mask:
  assumes "x \<noteq> 0"
  obtains k where "0 < k" "k \<le> 32" "smear x = mask k" "2 ^ (k - 1) \<le> unat x" "unat x < 2 ^ k"
proof -
  obtain h where h: "h < 32" "bit x h" "\<And>n. bit x n \<Longrightarrow> n \<le> h"
    using highest_bit [OF assms] by blast
  have "bit (smear x) n \<longleftrightarrow> n < Suc h" for n
    unfolding bit_smear
  proof
    assume "\<exists>d\<le>31. bit x (n + d)"
    then show "n < Suc h" using h(3) by fastforce
  next
    assume "n < Suc h"
    then show "\<exists>d\<le>31. bit x (n + d)" using h by (intro exI [of _ "h - n"]) simp
  qed
  then have sm: "smear x = mask (Suc h)"
    by (intro bit_word_eqI) (simp add: bit_mask_iff)
  have "take_bit (Suc h) x = x"
    using h(3) by (intro bit_word_eqI) (auto simp: bit_take_bit_iff less_Suc_eq_le)
  then have "unat x = unat x mod 2 ^ Suc h"
    by (metis unsigned_take_bit_eq take_bit_eq_mod)
  then have "unat x < 2 ^ Suc h" by (metis mod_less_divisor zero_less_numeral zero_less_power)
  moreover have "2 ^ h \<le> unat x"
  proof -
    have "bit (unat x) h" using h(2) by (simp add: bit_unsigned_iff)
    then have "unat x div 2 ^ h \<noteq> 0" by (metis bit_iff_odd even_zero)
    then show ?thesis by (simp add: div_eq_0_iff not_less)
  qed
  ultimately show thesis using that [of "Suc h"] sm h(1) by simp
qed

lemma stream_ht_size_pow2:
  assumes m: "0 < unat m" "unat m \<le> 65536"
  obtains k where "k < 32" "stream_ht_size m = 2 ^ k" "64 \<le> (2 :: nat) ^ k" "2 * unat m \<le> 2 ^ k"
    "(2 :: nat) ^ k < 4 * unat m \<or> k = 6"
proof -
  let ?x = "ucast (m * 2) - 1 :: 32 word"
  have m2: "unat (m * 2) = 2 * unat m"
    using m by (simp add: unat_word_ariths)
  then have u: "unat (ucast (m * 2) :: 32 word) = 2 * unat m"
    using m by (simp add: unsigned_ucast_eq take_bit_eq_mod)
  then have x: "unat ?x = 2 * unat m - 1"
    using m by (subst unat_sub) (auto simp: word_le_nat_alt)
  then have "?x \<noteq> 0" using m by (intro notI) simp
  then obtain k where k: "0 < k" "k \<le> 32" "smear ?x = mask k" "2 ^ (k - 1) \<le> unat ?x" "unat ?x < 2 ^ k"
    using smear_mask by blast
  have "(2 :: nat) ^ (k - 1) < 2 ^ 17" using k(4) x m by simp
  then have k17: "k \<le> 17"
    using power_less_imp_less_exp [of "2 :: nat" "k - 1" 17] by simp
  then have size: "smear ?x + 1 = 2 ^ k"
    using k(3) by (simp add: mask_eq_exp_minus_1)
  have uk: "unat (2 ^ k :: 32 word) = 2 ^ k" using k17 by (simp add: unat_pow2)
  have ub: "2 * unat m \<le> 2 ^ k" using k(5) x by simp
  have tight: "(2 :: nat) ^ k < 4 * unat m"
    using k(1,4) x m by (cases k) auto
  show thesis
  proof (cases "(2 :: nat) ^ k < 64")
    case True
    then show thesis
      using that [of 6] size ub uk by (simp add: stream_ht_size_def Let_def word_less_nat_alt)
  next
    case False
    then show thesis
      using that [of k] size ub uk k17 tight by (simp add: stream_ht_size_def Let_def word_less_nat_alt)
  qed
qed

lemma ht_inv_create:
  fixes key :: "'a \<Rightarrow> 32 word"
  assumes "0 < unat m" "unat m \<le> 65536"
  defines "t \<equiv> ht_create m :: 'a table"
  shows "ht_inv key t" "ht_live t = {}" "2 * unat m \<le> ht_len t"
proof -
  obtain k where k: "k < 32" "stream_ht_size m = 2 ^ k" "2 * unat m \<le> 2 ^ k"
    using stream_ht_size_pow2 [OF assms(1,2)] by metis
  have sl: "ht_slots t = replicate (2 ^ k) Slot_null"
    using k by (simp add: t_def ht_create_def Let_def unat_pow2)
  have "ht_mask t = mask k"
    using k by (simp add: t_def ht_create_def Let_def mask_eq_exp_minus_1)
  then have sh: "ht_shape t"
    unfolding ht_shape_def using k(1) sl by (intro exI [of _ k]) simp
  show live: "ht_live t = {}" by (simp add: ht_live_def sl)
  show "ht_inv key t"
    using sh live by (simp add: ht_inv_def sl)
  show "2 * unat m \<le> ht_len t" using k(3) by (simp add: sl)
qed

section \<open>The contract of a stream store\<close>

text \<open>
  What the stream layer relies on: a lookup finds exactly the live entry with the
  identifier, inserting a fresh identifier adds it while there is room, removing a live
  entry removes it and nothing else.
\<close>

locale stream_store =
  fixes key :: "'a \<Rightarrow> 32 word"
    and lookup :: "'t \<Rightarrow> 32 word \<Rightarrow> 'a option"
    and add :: "'t \<Rightarrow> 'a \<Rightarrow> 't option"
    and del :: "'t \<Rightarrow> 'a \<Rightarrow> 't"
    and invar :: "'t \<Rightarrow> bool"
    and live :: "'t \<Rightarrow> 'a set"
    and room :: "'t \<Rightarrow> nat"
  assumes finite_live: "finite (live t)"
    and lookup_iff: "invar t \<Longrightarrow> lookup t sid = Some st \<longleftrightarrow> st \<in> live t \<and> key st = sid"
    and add_total: "invar t \<Longrightarrow> card (live t) < room t \<Longrightarrow> \<exists>t'. add t st = Some t'"
    and add_Some: "invar t \<Longrightarrow> \<forall>x\<in>live t. key x \<noteq> key st \<Longrightarrow> add t st = Some t'
      \<Longrightarrow> invar t' \<and> live t' = insert st (live t) \<and> room t' = room t"
    and del_live: "invar t \<Longrightarrow> st \<in> live t
      \<Longrightarrow> invar (del t st) \<and> live (del t st) = live t - {st} \<and> room (del t st) = room t"
begin

lemma live_key_inj: "invar t \<Longrightarrow> x \<in> live t \<Longrightarrow> y \<in> live t \<Longrightarrow> key x = key y \<Longrightarrow> x = y"
  using lookup_iff [of t "key x"] by (metis option.inject)

lemma lookup_None: "invar t \<Longrightarrow> lookup t sid = None \<longleftrightarrow> (\<forall>x\<in>live t. key x \<noteq> sid)"
  by (metis lookup_iff not_Some_eq)

lemma lookup_ext:
  "invar t \<Longrightarrow> (\<And>st. m = Some st \<longleftrightarrow> st \<in> live t \<and> key st = sid) \<Longrightarrow> lookup t sid = m"
  by (metis lookup_iff not_Some_eq)

lemma lookup_add:
  assumes "invar t" "lookup t (key st) = None" "add t st = Some t'"
  shows "lookup t' = (lookup t)(key st \<mapsto> st)"
proof
  fix sid
  have fresh: "\<forall>x\<in>live t. key x \<noteq> key st" using lookup_None assms(1,2) by blast
  have t': "invar t'" "live t' = insert st (live t)"
    using add_Some [OF assms(1) fresh assms(3)] by auto
  show "lookup t' sid = ((lookup t)(key st \<mapsto> st)) sid"
    using fresh by (intro lookup_ext [OF t'(1)]) (auto simp: t'(2) lookup_iff [OF assms(1)])
qed

lemma lookup_del:
  assumes "invar t" "lookup t (key st) = Some st"
  shows "lookup (del t st) = (lookup t)(key st := None)"
proof
  fix sid
  have st: "st \<in> live t" using lookup_iff assms by blast
  note d = del_live [OF assms(1) st]
  have inj: "x = st" if "x \<in> live t" "key x = key st" for x
    using live_key_inj [OF assms(1) that(1) st that(2)] .
  show "lookup (del t st) sid = ((lookup t)(key st := None)) sid"
    using d by (intro lookup_ext) (auto simp: lookup_iff [OF assms(1)] dest: inj)
qed

lemma add_lookup_total:
  assumes "invar t" "lookup t (key st) = None" "card (live t) < room t"
  shows "\<exists>t'. add t st = Some t' \<and> invar t' \<and> lookup t' = (lookup t)(key st \<mapsto> st)
    \<and> card (live t') = Suc (card (live t)) \<and> room t' = room t"
proof -
  obtain t' where t': "add t st = Some t'" using add_total assms(1,3) by blast
  have fresh: "\<forall>x\<in>live t. key x \<noteq> key st" using lookup_None assms(1,2) by blast
  then have "card (insert st (live t)) = Suc (card (live t))"
    using finite_live by (subst card_insert_disjoint) auto
  then show ?thesis
    using t' add_Some [OF assms(1) fresh t'] lookup_add [OF assms(1,2) t'] by auto
qed

lemma del_lookup:
  assumes "invar t" "lookup t (key st) = Some st"
  shows "invar (del t st) \<and> lookup (del t st) = (lookup t)(key st := None)
    \<and> Suc (card (live (del t st))) = card (live t) \<and> room (del t st) = room t"
proof -
  have st: "st \<in> live t" using lookup_iff assms by blast
  then show ?thesis
    using del_live [OF assms(1) st] lookup_del [OF assms] card_Suc_Diff1 [OF finite_live st] by simp
qed

end

interpretation ht: stream_store key "stream_ht_find key" "stream_ht_insert key"
    "stream_ht_remove key" "ht_inv key" ht_live "\<lambda>t. length (ht_slots t)"
  for key :: "'a \<Rightarrow> 32 word"
proof unfold_locales
  fix t :: "'a table" and t' sid st
  show "finite (ht_live t)" by (rule finite_ht_live)
  show "stream_ht_find key t sid = Some st \<longleftrightarrow> st \<in> ht_live t \<and> key st = sid"
    if "ht_inv key t" using that by (rule stream_ht_find_iff)
  show "\<exists>t'. stream_ht_insert key t st = Some t'"
    if "ht_inv key t" "card (ht_live t) < ht_len t" using that by (rule stream_ht_insert_total)
  show "ht_inv key t' \<and> ht_live t' = insert st (ht_live t) \<and> ht_len t' = ht_len t"
    if "ht_inv key t" "\<forall>x\<in>ht_live t. key x \<noteq> key st" "stream_ht_insert key t st = Some t'"
    using stream_ht_insert_Some [OF that] by blast
  show "ht_inv key (stream_ht_remove key t st) \<and> ht_live (stream_ht_remove key t st) = ht_live t - {st}
      \<and> ht_len (stream_ht_remove key t st) = ht_len t"
    if "ht_inv key t" "st \<in> ht_live t" using stream_ht_remove_live [OF that] by blast
qed

section \<open>Runs of a connection's table\<close>

text \<open>
  The two places that change the table: \<open>ngx_anytls_stream_create_if_absent\<close> looks the
  identifier up, compares \<open>active_streams\<close> with \<open>max_streams\<close> and inserts;
  \<open>ngx_anytls_stream_close\<close> removes a stream that is in the table. The specification of
  a run is a finite map with the number of its entries.
\<close>

datatype 'a ht_op = Op_open 'a | Op_close 'a

fun table_step ::
  "('a \<Rightarrow> 32 word) \<Rightarrow> nat \<Rightarrow> 'a table \<times> nat \<Rightarrow> 'a ht_op \<Rightarrow> 'a table \<times> nat" where
  "table_step key max_streams (t, active) (Op_open st) =
     (if stream_ht_find key t (key st) \<noteq> None \<or> active \<ge> max_streams then (t, active)
      else case stream_ht_insert key t st of None \<Rightarrow> (t, active) | Some t' \<Rightarrow> (t', Suc active))"
| "table_step key max_streams (t, active) (Op_close st) =
     (if stream_ht_find key t (key st) = Some st then (stream_ht_remove key t st, active - 1)
      else (t, active))"

fun map_step ::
  "('a \<Rightarrow> 32 word) \<Rightarrow> nat \<Rightarrow> (32 word \<Rightarrow> 'a option) \<times> nat \<Rightarrow> 'a ht_op
     \<Rightarrow> (32 word \<Rightarrow> 'a option) \<times> nat" where
  "map_step key max_streams (m, active) (Op_open st) =
     (if m (key st) \<noteq> None \<or> active \<ge> max_streams then (m, active)
      else (m(key st \<mapsto> st), Suc active))"
| "map_step key max_streams (m, active) (Op_close st) =
     (if m (key st) = Some st then (m(key st := None), active - 1) else (m, active))"

definition table_rel ::
  "('a \<Rightarrow> 32 word) \<Rightarrow> nat \<Rightarrow> 'a table \<times> nat \<Rightarrow> (32 word \<Rightarrow> 'a option) \<times> nat \<Rightarrow> bool" where
  "table_rel key cap c a \<longleftrightarrow>
     ht_inv key (fst c) \<and> 2 * cap \<le> ht_len (fst c) \<and> card (ht_live (fst c)) = snd c
     \<and> snd c \<le> cap \<and> snd c = snd a \<and> stream_ht_find key (fst c) = fst a"

lemma table_rel_step:
  assumes "table_rel key cap c a"
  shows "table_rel key cap (table_step key cap c op) (map_step key cap a op)"
proof -
  obtain t n m where c: "c = (t, n)" "a = (m, n)"
    using assms by (cases c; cases a) (auto simp: table_rel_def)
  have r: "ht_inv key t" "2 * cap \<le> ht_len t" "card (ht_live t) = n" "n \<le> cap" "m = stream_ht_find key t"
    using assms by (auto simp: table_rel_def c)
  show ?thesis
  proof (cases op)
    case (Op_open st)
    show ?thesis
    proof (cases "m (key st) \<noteq> None \<or> n \<ge> cap")
      case True
      then show ?thesis using assms r(5) by (simp add: c Op_open)
    next
      case False
      then obtain t' where "stream_ht_insert key t st = Some t'" "ht_inv key t'"
        "stream_ht_find key t' = m(key st \<mapsto> st)" "card (ht_live t') = Suc n" "ht_len t' = ht_len t"
        using ht.add_lookup_total [of key t st] r by auto
      then show ?thesis
        using False r by (simp add: c Op_open table_rel_def)
    qed
  next
    case (Op_close st)
    show ?thesis
    proof (cases "m (key st) = Some st")
      case True
      then show ?thesis
        using ht.del_lookup [of key t st] r by (auto simp: c Op_close table_rel_def)
    next
      case False
      then show ?thesis using assms r(5) by (simp add: c Op_close)
    qed
  qed
qed

lemma table_rel_run:
  "table_rel key cap c a
    \<Longrightarrow> table_rel key cap (foldl (table_step key cap) c ops) (foldl (map_step key cap) a ops)"
proof (induction ops arbitrary: c a)
  case (Cons op ops)
  show ?case
    using Cons.IH [OF table_rel_step [OF Cons.prems, of op]] by simp
qed simp

lemma table_rel_create:
  fixes key :: "'a \<Rightarrow> 32 word"
  assumes "0 < unat m" "unat m \<le> 65536"
  shows "table_rel key (unat m) (ht_create m, 0) (\<lambda>_. None, 0)"
proof -
  note i = ht_inv_create [OF assms, where 'a = 'a]
  have "stream_ht_find key (ht_create m) sid = None" for sid
    using ht.lookup_None [OF i(1), of key sid] i(2) by auto
  then show ?thesis using i by (auto simp: table_rel_def fun_eq_iff)
qed

text \<open>
  C26: For every number of streams the configuration admits and every sequence of opens and
  closes, the hash table with tombstones answers every lookup as a finite map does, its
  count of streams is that map's, and at most half of the slots hold a stream, so that no
  insertion finds the table full.
\<close>

theorem stream_table_refines_map:
  fixes key :: "'a \<Rightarrow> 32 word"
  assumes "0 < unat max_streams" "unat max_streams \<le> 65536"
  shows "let (t, active) = foldl (table_step key (unat max_streams)) (ht_create max_streams, 0) ops;
             (m, n) = foldl (map_step key (unat max_streams)) (\<lambda>_. None, 0) ops
         in stream_ht_find key t = m \<and> active = n \<and> active = card (ht_live t)
            \<and> active \<le> unat max_streams \<and> 2 * active \<le> length (ht_slots t)"
  using table_rel_run [OF table_rel_create [OF assms, of key], of ops]
  by (auto simp: table_rel_def split: prod.splits)

text \<open>Two streams with the same home slot, the first closed, the second still found.\<close>

theorem stream_table_refines_map_witness:
  "let (t, active) = foldl (table_step (\<lambda>x :: 32 word. x) 1000)
                       (ht_create (1000 :: 64 word), 0) [Op_open 5, Op_open 2053, Op_close 5];
       (m, n) = foldl (map_step (\<lambda>x. x) 1000) (\<lambda>_. None, 0)
                  [Op_open 5, Op_open 2053, Op_close (5 :: 32 word)]
   in stream_ht_find (\<lambda>x. x) t = m \<and> active = n \<and> active = card (ht_live t)
      \<and> active \<le> 1000 \<and> 2 * active \<le> length (ht_slots t)"
  using stream_table_refines_map
    [where max_streams = 1000 and key = "\<lambda>x. x" and ops = "[Op_open 5, Op_open 2053, Op_close 5]"]
  by simp

text \<open>
  C32: The table is sized by bit smearing to the smallest power of two that holds twice the
  configured number of streams, and to 64 slots at least.
\<close>

theorem stream_ht_size_rounds_up:
  assumes "0 < unat max_streams" "unat max_streams \<le> 65536"
  shows "\<exists>k. unat (stream_ht_size max_streams) = 2 ^ k \<and> 6 \<le> k
    \<and> 2 * unat max_streams \<le> 2 ^ k \<and> (k = 6 \<or> 2 ^ (k - 1) < 2 * unat max_streams)"
proof -
  obtain k where k: "k < 32" "stream_ht_size max_streams = 2 ^ k" "64 \<le> (2 :: nat) ^ k"
    "2 * unat max_streams \<le> 2 ^ k" "(2 :: nat) ^ k < 4 * unat max_streams \<or> k = 6"
    using stream_ht_size_pow2 [OF assms] by blast
  have "6 \<le> k"
    using k(3) power_le_imp_le_exp [of "2 :: nat" 6 k] by simp
  moreover have "k = 6 \<or> 2 ^ (k - 1) < 2 * unat max_streams"
    using k(5) calculation by (cases k) auto
  ultimately show ?thesis using k by (auto simp: unat_pow2)
qed

theorem stream_ht_size_rounds_up_witness:
  "\<exists>k. unat (stream_ht_size 1000) = 2 ^ k \<and> 6 \<le> k \<and> 2000 \<le> (2 :: nat) ^ k
     \<and> (k = 6 \<or> (2 :: nat) ^ (k - 1) < 2000)"
  using stream_ht_size_rounds_up [where max_streams = 1000] by simp

end
