(* ===== verification/Upstream_State.thy ===== *)
theory Upstream_State
  imports Prelude
begin

text \<open>
  The per-upstream statistics of a session, \<open>src/src/ngx_anytls_upstream_state.c\<close>: a
  tracker in the stream (or the fallback) refers by index to an entry of the session's array
  \<open>s->upstream_states\<close>. The array is \<open>None\<close> while the pointer is \<open>NULL\<close>; \<open>now\<close> is
  \<open>ngx_current_msec\<close>; milliseconds are 64 bit words, so differences wrap as in C; byte
  counts (\<open>off_t\<close>) are integers.
\<close>

type_synonym msec = "64 word"

record ustate =
  us_connect_time :: msec
  us_first_byte_time :: msec
  us_response_time :: msec
  us_bytes_sent :: int
  us_bytes_received :: int
  us_peer :: "buffer option"

record tracker =
  tr_index :: nat
  tr_start_time :: msec
  tr_bytes_sent :: int
  tr_bytes_received :: int
  tr_opened :: bool
  tr_finalized :: bool

definition tracker_zero :: tracker where
  "tracker_zero = \<lparr>tr_index = 0, tr_start_time = 0, tr_bytes_sent = 0, tr_bytes_received = 0,
     tr_opened = False, tr_finalized = False\<rparr>"

text \<open>\<open>ngx_anytls_upstream_state_get\<close>: the index of the entry, if there is one.\<close>

definition state_get :: "ustate list option \<Rightarrow> tracker \<Rightarrow> nat option" where
  "state_get states tr =
     (case states of
        None \<Rightarrow> None
      | Some us \<Rightarrow> if \<not> tr_opened tr \<or> tr_index tr \<ge> length us then None else Some (tr_index tr))"

abbreviation (input) "state_upd us i f \<equiv> us[i := f (us ! i)]"

text \<open>
  \<open>ngx_anytls_upstream_state_copy_peer\<close> on the new entry; the flags are the outcomes of
  its two allocations.
\<close>

definition copy_peer :: "bool \<Rightarrow> bool \<Rightarrow> ustate \<Rightarrow> buffer \<Rightarrow> ustate option" where
  "copy_peer alloc_str alloc_data u peer =
     (if peer = [] then Some u
      else if \<not> alloc_str then None
      else if \<not> alloc_data then None
      else Some (u\<lparr>us_peer := Some peer\<rparr>))"

definition ustate_fresh :: ustate where
  "ustate_fresh = \<lparr>us_connect_time = -1, us_first_byte_time = -1, us_response_time = -1,
     us_bytes_sent = 0, us_bytes_received = 0, us_peer = None\<rparr>"

text \<open>The outcomes of the allocations \<open>ngx_anytls_upstream_state_open\<close> makes.\<close>

record open_allocs =
  oa_array :: bool
  oa_push :: bool
  oa_str :: bool
  oa_data :: bool

definition state_open ::
  "msec \<Rightarrow> open_allocs \<Rightarrow> ustate list option \<Rightarrow> tracker \<Rightarrow> buffer
     \<Rightarrow> rc \<times> ustate list option \<times> tracker" where
  "state_open now oa states tr peer =
     (if tr_opened tr then (NGX_OK, states, tr)
      else if states = None \<and> \<not> oa_array oa then (NGX_ERROR, states, tr)
      else
        let us = (case states of None \<Rightarrow> [] | Some us \<Rightarrow> us) in
        if \<not> oa_push oa then (NGX_ERROR, Some us, tr)
        else case copy_peer (oa_str oa) (oa_data oa) ustate_fresh peer of
               None \<Rightarrow> (NGX_ERROR, Some us, tr)
             | Some u \<Rightarrow>
                 (NGX_OK, Some (us @ [u]),
                  \<lparr>tr_index = length us, tr_start_time = now, tr_bytes_sent = 0,
                   tr_bytes_received = 0, tr_opened = True, tr_finalized = False\<rparr>))"

definition state_on_connect :: "msec \<Rightarrow> ustate list option \<Rightarrow> tracker \<Rightarrow> ustate list option" where
  "state_on_connect now states tr =
     (case state_get states tr of
        None \<Rightarrow> states
      | Some i \<Rightarrow>
          if tr_finalized tr then states
          else map_option (\<lambda>us. state_upd us i (\<lambda>u.
                 if us_connect_time u = -1 then u\<lparr>us_connect_time := now - tr_start_time tr\<rparr> else u))
               states)"

definition state_on_first_byte :: "msec \<Rightarrow> ustate list option \<Rightarrow> tracker \<Rightarrow> ustate list option" where
  "state_on_first_byte now states tr =
     (case state_get states tr of
        None \<Rightarrow> states
      | Some i \<Rightarrow>
          if tr_finalized tr then states
          else map_option (\<lambda>us. state_upd us i (\<lambda>u.
                 if us_first_byte_time u = -1 then u\<lparr>us_first_byte_time := now - tr_start_time tr\<rparr> else u))
               states)"

definition state_record_received ::
  "msec \<Rightarrow> ustate list option \<Rightarrow> tracker \<Rightarrow> int \<Rightarrow> ustate list option \<times> tracker" where
  "state_record_received now states tr n =
     (if n \<le> 0 \<or> tr_finalized tr then (states, tr)
      else case state_get states tr of
             None \<Rightarrow> (states, tr)
           | Some i \<Rightarrow>
               (map_option (\<lambda>us. state_upd us i (\<lambda>u.
                  if us_first_byte_time u = -1 then u\<lparr>us_first_byte_time := now - tr_start_time tr\<rparr>
                  else u)) states,
                tr\<lparr>tr_bytes_received := tr_bytes_received tr + n\<rparr>))"

definition state_add_bytes_sent :: "ustate list option \<Rightarrow> tracker \<Rightarrow> int \<Rightarrow> tracker" where
  "state_add_bytes_sent states tr n =
     (if n \<le> 0 \<or> state_get states tr = None \<or> tr_finalized tr then tr
      else tr\<lparr>tr_bytes_sent := tr_bytes_sent tr + n\<rparr>)"

definition state_add_bytes_received :: "ustate list option \<Rightarrow> tracker \<Rightarrow> int \<Rightarrow> tracker" where
  "state_add_bytes_received states tr n =
     (if n \<le> 0 \<or> state_get states tr = None \<or> tr_finalized tr then tr
      else tr\<lparr>tr_bytes_received := tr_bytes_received tr + n\<rparr>)"

definition state_finalize ::
  "msec \<Rightarrow> ustate list option \<Rightarrow> tracker \<Rightarrow> ustate list option \<times> tracker" where
  "state_finalize now states tr =
     (case state_get states tr of
        None \<Rightarrow> (states, tr)
      | Some i \<Rightarrow>
          if tr_finalized tr then (states, tr)
          else (map_option (\<lambda>us. state_upd us i (\<lambda>u.
                  u\<lparr>us_response_time := now - tr_start_time tr,
                    us_bytes_sent := tr_bytes_sent tr, us_bytes_received := tr_bytes_received tr\<rparr>))
                  states,
                tr\<lparr>tr_finalized := True\<rparr>))"

section \<open>The life of one tracker\<close>

text \<open>What the streams and the fallback report to the statistics, each at a time.\<close>

datatype report = R_connect msec | R_first_byte msec | R_received msec int | R_sent int
  | R_add_received int | R_finalize msec

fun report_step :: "ustate list option \<times> tracker \<Rightarrow> report \<Rightarrow> ustate list option \<times> tracker" where
  "report_step (states, tr) (R_connect now) = (state_on_connect now states tr, tr)"
| "report_step (states, tr) (R_first_byte now) = (state_on_first_byte now states tr, tr)"
| "report_step (states, tr) (R_received now n) = state_record_received now states tr n"
| "report_step (states, tr) (R_sent n) = (states, state_add_bytes_sent states tr n)"
| "report_step (states, tr) (R_add_received n) = (states, state_add_bytes_received states tr n)"
| "report_step (states, tr) (R_finalize now) = state_finalize now states tr"

fun sent_bytes :: "report \<Rightarrow> int" where
  "sent_bytes (R_sent n) = max n 0"
| "sent_bytes _ = 0"

fun received_bytes :: "report \<Rightarrow> int" where
  "received_bytes (R_received now n) = max n 0"
| "received_bytes (R_add_received n) = max n 0"
| "received_bytes _ = 0"

fun is_finalize :: "report \<Rightarrow> bool" where
  "is_finalize (R_finalize now) = True"
| "is_finalize _ = False"

text \<open>The reports that count: those before the first \<open>R_finalize\<close>.\<close>

abbreviation (input) "counted rs \<equiv> takeWhile (\<lambda>r. \<not> is_finalize r) rs"

lemma state_get_Some: "state_get (Some us) tr = Some i \<longleftrightarrow> tr_opened tr \<and> i = tr_index tr \<and> i < length us"
  by (auto simp: state_get_def)

definition tracking :: "ustate list \<Rightarrow> tracker \<Rightarrow> bool" where
  "tracking us tr \<longleftrightarrow> tr_opened tr \<and> tr_index tr < length us"

lemma report_step_frame:
  assumes "tracking us tr"
  shows "\<exists>us' tr'. report_step (Some us, tr) r = (Some us', tr') \<and> tracking us' tr'
    \<and> length us' = length us \<and> tr_index tr' = tr_index tr
    \<and> (\<forall>j. j \<noteq> tr_index tr \<longrightarrow> us' ! j = us ! j)"
  using assms
  by (cases r) (auto simp: tracking_def state_get_def state_on_connect_def state_on_first_byte_def
      state_record_received_def state_add_bytes_sent_def state_add_bytes_received_def
      state_finalize_def)

text \<open>What the fields say about the reports seen so far.\<close>

definition tracked :: "report list \<Rightarrow> ustate list \<Rightarrow> tracker \<Rightarrow> bool" where
  "tracked rs us tr \<longleftrightarrow>
     tracking us tr
     \<and> tr_bytes_sent tr = sum_list (map sent_bytes (counted rs))
     \<and> tr_bytes_received tr = sum_list (map received_bytes (counted rs))
     \<and> tr_finalized tr = list_ex is_finalize rs
     \<and> (tr_finalized tr \<longrightarrow> us_bytes_sent (us ! tr_index tr) = tr_bytes_sent tr
          \<and> us_bytes_received (us ! tr_index tr) = tr_bytes_received tr)"

lemma counted_snoc:
  "counted (rs @ [r]) = (if list_ex is_finalize rs \<or> is_finalize r then counted rs else counted rs @ [r])"
  by (induction rs) auto

lemma tracked_step:
  assumes "tracked rs us tr"
  shows "\<exists>us' tr'. report_step (Some us, tr) r = (Some us', tr') \<and> tracked (rs @ [r]) us' tr'"
  using assms
  by (cases r) (auto simp: tracked_def counted_snoc tracking_def state_get_def state_on_connect_def
      state_on_first_byte_def state_record_received_def state_add_bytes_sent_def
      state_add_bytes_received_def state_finalize_def)

lemma report_run_frame:
  "tracking us tr \<Longrightarrow>
     \<exists>us' tr'. foldl report_step (Some us, tr) rs = (Some us', tr') \<and> tracking us' tr'
       \<and> length us' = length us \<and> tr_index tr' = tr_index tr
       \<and> (\<forall>j. j \<noteq> tr_index tr \<longrightarrow> us' ! j = us ! j)"
proof (induction rs arbitrary: us tr)
  case (Cons r rs)
  obtain us1 tr1 where 1: "report_step (Some us, tr) r = (Some us1, tr1)" "tracking us1 tr1"
    "length us1 = length us" "tr_index tr1 = tr_index tr" "\<forall>j. j \<noteq> tr_index tr \<longrightarrow> us1 ! j = us ! j"
    using report_step_frame [OF Cons.prems, of r] by blast
  from Cons.IH [OF 1(2)] show ?case using 1 by auto
qed simp

lemma tracked_run:
  "tracked rs0 us tr \<Longrightarrow>
     \<exists>us' tr'. foldl report_step (Some us, tr) rs = (Some us', tr') \<and> tracked (rs0 @ rs) us' tr'"
proof (induction rs arbitrary: rs0 us tr)
  case (Cons r rs)
  obtain us1 tr1 where 1: "report_step (Some us, tr) r = (Some us1, tr1)" "tracked (rs0 @ [r]) us1 tr1"
    using tracked_step [OF Cons.prems, of r] by blast
  from Cons.IH [OF 1(2)] show ?case using 1(1) by simp
qed simp

text \<open>
  C31: A tracker that was opened owns one new entry of the session's statistics. Whatever is
  reported through it afterwards, in any order, no other entry changes; once it is
  finalized its entry holds exactly the bytes reported before the finalization, and later
  reports do not count.
\<close>

theorem upstream_state_accounting:
  assumes "state_open now oa states tracker_zero peer = (NGX_OK, states1, tr)"
  shows "\<exists>us us1 us' tr'. us = (case states of None \<Rightarrow> [] | Some us \<Rightarrow> us)
    \<and> states1 = Some us1 \<and> us1 = us @ [last us1] \<and> tr_index tr = length us
    \<and> foldl report_step (states1, tr) rs = (Some us', tr') \<and> take (length us) us' = us
    \<and> length us' = Suc (length us)
    \<and> tr_bytes_sent tr' = sum_list (map sent_bytes (counted rs))
    \<and> tr_bytes_received tr' = sum_list (map received_bytes (counted rs))
    \<and> (list_ex is_finalize rs \<longrightarrow>
         us_bytes_sent (us' ! length us) = sum_list (map sent_bytes (counted rs))
         \<and> us_bytes_received (us' ! length us) = sum_list (map received_bytes (counted rs)))"
proof -
  define us where "us = (case states of None \<Rightarrow> [] | Some us \<Rightarrow> us)"
  obtain u where open1: "states1 = Some (us @ [u])" "tr_index tr = length us"
    and tr: "tracked [] (us @ [u]) tr"
    using assms
    by (auto simp: state_open_def tracker_zero_def us_def tracked_def tracking_def Let_def
        split: if_splits option.splits)
  obtain us' tr' where run: "foldl report_step (states1, tr) rs = (Some us', tr')" "tracked rs us' tr'"
    using tracked_run [OF tr, of rs] open1 by auto
  have fr: "length us' = Suc (length us)" "tr_index tr' = length us"
    "\<forall>j. j \<noteq> length us \<longrightarrow> us' ! j = (us @ [u]) ! j"
    using report_run_frame [of "us @ [u]" tr rs] tr run open1 by (auto simp: tracked_def)
  have "take (length us) us' = us"
    using fr by (intro nth_equalityI) (auto simp: nth_append)
  then show ?thesis
    using open1 run fr by (auto simp: us_def tracked_def)
qed

theorem upstream_state_accounting_witness:
  "\<exists>us'. fst (foldl report_step
       (Some [ustate_fresh], tracker_zero\<lparr>tr_start_time := 5, tr_opened := True\<rparr>)
       [R_connect 9, R_sent 10, R_finalize 12, R_sent 3]) = Some us'
     \<and> us_bytes_sent (us' ! 0) = 10"
proof -
  have "state_open 5 \<lparr>oa_array = True, oa_push = True, oa_str = True, oa_data = True\<rparr> None tracker_zero []
    = (NGX_OK, Some [ustate_fresh], tracker_zero\<lparr>tr_start_time := 5, tr_opened := True\<rparr>)"
    by (simp add: state_open_def copy_peer_def tracker_zero_def)
  from upstream_state_accounting [OF this, of "[R_connect 9, R_sent 10, R_finalize 12, R_sent 3]"]
  show ?thesis by auto
qed

end
