(* ===== verification/Machine.thy ===== *)
theory Machine
  imports Session_Core Stream_Table Upstream_State "HOL-Library.State_Monad"
begin

text \<open>
  The state of one client connection and the monad in which its operations are written. The
  record \<open>conn\<close> is \<open>ngx_anytls_connection_t\<close> with the parts of the session and the
  configuration it uses; streams live in a store indexed by address, and the queues
  \<open>ngx_queue_t\<close> and the singly linked lists are lists. Memory is allocated from the pool
  of the connection, so an address stays valid as long as the connection.

  What nginx and the operating system answer (allocations, event calls, event flags, socket
  reads and writes, the clock) is a parameter \<open>env\<close>: functions of the number of questions
  asked so far. What the code does to the outside is a trace of effects.
\<close>

section \<open>Data\<close>

type_synonym sptr = nat

datatype stream_state = STREAM_INIT | STREAM_CONNECTING | STREAM_CONNECTED | STREAM_HALF_CLOSED
  | STREAM_CLOSING | STREAM_CLOSED

datatype upstream_type = UPSTREAM_TCP | UPSTREAM_UOT

datatype resolve_target = RESOLVE_NONE | RESOLVE_TCP | RESOLVE_UOT_CONNECT | RESOLVE_UOT_PACKET

text \<open>
  \<open>ngx_anytls_out_frame_t\<close>: the buffers of a frame as the bytes that are not sent yet; a
  payload chain that goes back to the read buffer cache is given by the capacity of its
  buffer.
\<close>

record out_frame =
  of_cmd :: nat
  of_stream :: "sptr option"
  of_length :: nat
  of_bytes :: buffer
  of_blocked :: bool
  of_fin :: bool
  of_own_payload :: bool
  of_recycle :: "nat option"

text \<open>\<open>ngx_anytls_pending_t\<close>; \<open>p_cap\<close> is the capacity in the header of its buffer.\<close>

record pending =
  p_data :: buffer
  p_sent :: nat
  p_cap :: nat

text \<open>\<open>ngx_anytls_uot_pending_t\<close>.\<close>

record uot_pending =
  up_domain :: buffer
  up_port :: "16 word"
  up_payload :: buffer

text \<open>\<open>ngx_anytls_stream_t\<close>. A pointer to an nginx connection is a flag: present or \<open>NULL\<close>.\<close>

record stream =
  st_id :: "32 word"
  st_state :: stream_state
  st_upstream_type :: upstream_type
  st_target :: addr
  st_pool :: bool
  st_upstream :: bool
  st_upstream_name :: buffer
  st_upstream_state :: tracker
  st_pending_in :: "pending list"
  st_free_pending_in :: nat
  st_free_pending_in_count :: "64 word"
  st_pending_in_bytes :: nat
  st_out :: "out_frame list"
  st_pending_out :: nat
  st_queued_frames :: nat
  st_direct_count :: nat
  st_queued :: bool
  st_ready_out :: bool
  st_upstream_read_ready :: bool
  st_upstream_write_ready :: bool
  st_blocked_by_client :: bool
  st_closing :: bool
  st_in_closed :: bool
  st_out_closed :: bool
  st_fin_queued :: bool
  st_fin_sent :: bool
  st_synack_sent :: bool
  st_first_psh_seen :: bool
  st_input_blocked :: bool
  st_input_exhausted :: bool
  st_upstream_read_blocked :: bool
  st_blocked_by_upstream :: bool
  st_connect_pending :: bool
  st_delayed_close :: bool
  st_closed_by_protocol :: bool
  st_pending_shutdown :: bool
  st_resolver_ctx :: bool
  st_resolver_pending :: bool
  st_resolver_target :: resolve_target
  st_resolver_domain :: buffer
  st_resolver_port :: "16 word"
  st_udp :: bool
  st_udp_family :: "family option"
  st_uot_pending :: "uot_pending list"
  st_uot_pending_count :: nat
  st_uot_pending_bytes :: nat
  st_uot_mode :: addr_mode
  st_uot_recv_buf :: bool
  st_uot_recv :: buffer
  st_uot_recv_pos :: nat
  st_uot_recv_size :: nat
  st_uot_drop_log_time :: msec
  st_uot_drop_count :: nat
  st_uot_timer :: bool
  st_last_activity :: msec
  st_uot_request_parsed :: bool
  st_uot_counted :: bool
  st_first_psh :: psh_acc

definition stream_zero :: stream where
  "stream_zero =
     \<lparr>st_id = 0, st_state = STREAM_INIT, st_upstream_type = UPSTREAM_TCP, st_target = addr_zero,
      st_pool = False, st_upstream = False, st_upstream_name = [], st_upstream_state = tracker_zero,
      st_pending_in = [], st_free_pending_in = 0, st_free_pending_in_count = 0,
      st_pending_in_bytes = 0, st_out = [], st_pending_out = 0, st_queued_frames = 0,
      st_direct_count = 0, st_queued = False, st_ready_out = False, st_upstream_read_ready = False,
      st_upstream_write_ready = False, st_blocked_by_client = False, st_closing = False,
      st_in_closed = False, st_out_closed = False, st_fin_queued = False, st_fin_sent = False,
      st_synack_sent = False, st_first_psh_seen = False, st_input_blocked = False,
      st_input_exhausted = False, st_upstream_read_blocked = False, st_blocked_by_upstream = False,
      st_connect_pending = False, st_delayed_close = False, st_closed_by_protocol = False,
      st_pending_shutdown = False, st_resolver_ctx = False, st_resolver_pending = False,
      st_resolver_target = RESOLVE_NONE, st_resolver_domain = [], st_resolver_port = 0,
      st_udp = False, st_udp_family = None, st_uot_pending = [], st_uot_pending_count = 0,
      st_uot_pending_bytes = 0, st_uot_mode = ADDR_TCP, st_uot_recv_buf = False, st_uot_recv = [],
      st_uot_recv_pos = 0, st_uot_recv_size = 0, st_uot_drop_log_time = 0, st_uot_drop_count = 0,
      st_uot_timer = False, st_last_activity = 0, st_uot_request_parsed = False,
      st_uot_counted = False, st_first_psh = \<lparr>pa_alloc = False, pa_bytes = []\<rparr>\<rparr>"

text \<open>The settings of \<open>ngx_stream_anytls_srv_conf_t\<close> a connection reads.\<close>

record conf =
  cf_users :: "user list"
  cf_padding_data :: buffer
  cf_padding_md5 :: buffer
  cf_fallback :: bool
  cf_fallback_proxy_protocol :: bool
  cf_fallback_connect_timeout :: msec
  cf_upstream_connect_timeout :: msec
  cf_handshake_timeout :: msec
  cf_buffer_size :: nat
  cf_max_streams :: "64 word"
  cf_max_uot_streams :: nat
  cf_max_pending_output :: nat
  cf_max_pending_input :: nat
  cf_resolver :: bool
  cf_resolver_timeout :: msec
  cf_write_timeout :: msec
  cf_uot_idle_timeout :: msec
  cf_uot_pending_packets :: nat
  cf_uot_pending_bytes :: nat

datatype auth_status = AUTH_STATUS_UNSET | AUTH_STATUS_OK | AUTH_STATUS_FALLBACK
  | AUTH_STATUS_TIMEOUT | AUTH_STATUS_ERROR

text \<open>A temporary buffer of the fallback: the offset of \<open>pos\<close>, and the bytes up to \<open>last\<close>.\<close>

record fbuf =
  fb_pos :: nat
  fb_data :: buffer

text \<open>
  \<open>ac->unsent\<close>: \<open>NULL\<close>, \<open>NGX_CHAIN_ERROR\<close>, or a chain. A chain links the buffers of
  the frames in \<open>ac->sending\<close> that are not sent yet.
\<close>

datatype unsent = Unsent_null | Unsent_chain | Unsent_error

datatype timer = Timer_client_read | Timer_write | Timer_uot sptr | Timer_upstream_write sptr
  | Timer_fallback_write

datatype effect =
    Eff_client_write buffer
  | Eff_client_send buffer
  | Eff_upstream_write sptr buffer
  | Eff_shutdown_write sptr
  | Eff_close_upstream sptr
  | Eff_close_udp sptr
  | Eff_sendto sptr sockaddr buffer
  | Eff_post_client_write
  | Eff_post_client_read
  | Eff_post_client_read_next
  | Eff_post_upstream_write sptr
  | Eff_resolve_start sptr buffer
  | Eff_resolve_done sptr
  | Eff_destroy_pool sptr
  | Eff_fallback_write buffer
  | Eff_post_fallback_write
  | Eff_post_fallback_write_next
  | Eff_post_fallback_read_next
  | Eff_post_client_write_next
  | Eff_close_fallback
  | Eff_arm_timer timer
  | Eff_disarm_timer timer
  | Eff_finalize_session nat
  | Eff_overflow
  | Eff_unreached

record conn = auth_conn +
  c_conf :: conf
  c_mem :: "sptr \<Rightarrow> stream"
  c_next :: sptr
  c_table :: "sptr table"
  c_stream_list :: "sptr list"
  c_ready_streams :: "sptr list"
  c_blocked_upstream_reads :: "sptr list"
  c_active_streams :: nat
  c_blocked_input_streams :: nat
  c_uot_streams :: nat
  c_control_out :: "out_frame list"
  c_data_out :: "out_frame list"
  c_sending :: "out_frame list"
  c_free_frames :: nat
  c_frames :: nat
  c_closing_streams :: "sptr list"
  c_resumed_streams :: nat
  c_read_ready :: "sptr list"
  c_write_ready :: "sptr list"
  c_connect_pending :: "sptr list"
  c_write_timer :: bool
  c_unsent :: unsent
  c_pending_output :: nat
  c_pending_input :: nat
  c_free_read_bufs :: "nat list"
  c_free_read_bufs_large :: "nat list"
  c_free_read_bufs_count :: nat
  c_free_pending_bufs :: "nat list"
  c_free_pending_bufs_count :: nat
  c_read_buf_size :: nat
  c_read_buf_cap :: nat
  c_remnant :: buffer
  c_session_core :: session_core
  c_version_text :: buffer
  c_auth_status :: auth_status
  c_client_eof :: bool
  c_client_read_blocked :: bool
  c_input_paused :: bool
  c_write_pending :: bool
  c_output_pressure :: bool
  c_closing :: bool
  c_fallback :: bool
  c_fallback_replay :: "fbuf option"
  c_fallback_client_buf :: "fbuf option"
  c_fallback_upstream_buf :: "fbuf option"
  c_fallback_state :: tracker
  c_fallback_connected :: bool
  c_upstream_states :: "ustate list option"
  c_received :: nat
  c_tick :: nat
  c_trace :: "effect list"

section \<open>The environment\<close>

datatype io = IO_bytes nat | IO_again | IO_error

datatype recv = Recv_bytes buffer | Recv_again | Recv_eof | Recv_error

text \<open>
  \<open>ngx_resolve_start\<close> answers \<open>NULL\<close>, \<open>NGX_NO_RESOLVER\<close> or a context;
  \<open>recvfrom\<close> a datagram with its sender.
\<close>

datatype resolve_start = Resolve_null | Resolve_none | Resolve_ctx

datatype recvfrom = Dgram sockaddr buffer | Dgram_again | Dgram_error

record env =
  e_alloc :: "nat \<Rightarrow> bool"
  e_rc :: "nat \<Rightarrow> rc"
  e_flag :: "nat \<Rightarrow> bool"
  e_send :: "nat \<Rightarrow> nat \<Rightarrow> io"
  e_chain :: "nat \<Rightarrow> nat \<Rightarrow> nat option"
  e_recv :: "nat \<Rightarrow> nat \<Rightarrow> recv"
  e_udp_recv :: "nat \<Rightarrow> nat \<Rightarrow> recv"
  e_now :: "nat \<Rightarrow> msec"
  e_ntop :: "family \<Rightarrow> buffer \<Rightarrow> buffer"
  e_sock_ntop :: "sockaddr \<Rightarrow> buffer"
  e_strlchr :: "buffer \<Rightarrow> byte \<Rightarrow> nat option"
  e_dec :: "nat \<Rightarrow> buffer"
  e_url :: "nat \<Rightarrow> buffer \<Rightarrow> 16 word \<Rightarrow> sockaddr list option"
  e_resolve_start :: "nat \<Rightarrow> resolve_start"
  e_connect :: "nat \<Rightarrow> rc"
  e_udp :: "nat \<Rightarrow> family \<Rightarrow> bool"
  e_sendto :: "nat \<Rightarrow> nat \<Rightarrow> nat option"
  e_recvfrom :: "nat \<Rightarrow> nat \<Rightarrow> recvfrom"
  e_http_time :: buffer
  e_fallback_target :: "nat \<Rightarrow> buffer option"
  e_fallback_url :: "nat \<Rightarrow> buffer \<Rightarrow> buffer list option"
  e_proxy_header :: "nat \<Rightarrow> buffer option"

section \<open>The monad\<close>

type_synonym 'a M = "(conn, 'a) state"

definition ret :: "'a \<Rightarrow> 'a M" where
  "ret a = State_Monad.return a"

definition gets :: "(conn \<Rightarrow> 'a) \<Rightarrow> 'a M" where
  "gets f = State (\<lambda>c. (f c, c))"

definition modify :: "(conn \<Rightarrow> conn) \<Rightarrow> unit M" where
  "modify f = State (\<lambda>c. ((), f c))"

text \<open>One question to the environment.\<close>

definition ask :: "(nat \<Rightarrow> 'a) \<Rightarrow> 'a M" where
  "ask q = State (\<lambda>c. (q (c_tick c), c\<lparr>c_tick := Suc (c_tick c)\<rparr>))"

definition perform :: "effect \<Rightarrow> unit M" where
  "perform x = modify (\<lambda>c. c\<lparr>c_trace := c_trace c @ [x]\<rparr>)"

definition sget :: "sptr \<Rightarrow> (stream \<Rightarrow> 'a) \<Rightarrow> 'a M" where
  "sget st f = gets (\<lambda>c. f (c_mem c st))"

definition upd_stream :: "sptr \<Rightarrow> (stream \<Rightarrow> stream) \<Rightarrow> unit M" where
  "upd_stream st f = modify (\<lambda>c. c\<lparr>c_mem := (c_mem c)(st := f (c_mem c st))\<rparr>)"

definition only_if :: "bool \<Rightarrow> unit M \<Rightarrow> unit M" where
  "only_if b m = (if b then m else ret ())"

section \<open>Reasoning about operations\<close>

text \<open>
  \<open>wp m Q c\<close>: running \<open>m\<close> from \<open>c\<close> ends with a result and a state that satisfy
  \<open>Q\<close>. The rules in \<open>wp_simps\<close> push it through the operators of the monad.
\<close>

definition wp :: "'a M \<Rightarrow> ('a \<Rightarrow> conn \<Rightarrow> bool) \<Rightarrow> conn \<Rightarrow> bool" where
  "wp m Q c = (case run_state m c of (a, c') \<Rightarrow> Q a c')"

named_theorems wp_simps "weakest preconditions of the operators"

lemma run_gets [simp]: "run_state (gets f) c = (f c, c)"
  by (simp add: gets_def)

lemma run_modify [simp]: "run_state (modify f) c = ((), f c)"
  by (simp add: modify_def)

lemma run_ask [simp]: "run_state (ask q) c = (q (c_tick c), c\<lparr>c_tick := Suc (c_tick c)\<rparr>)"
  by (simp add: ask_def)

lemma run_ret [simp]: "run_state (ret a) c = (a, c)"
  by (simp add: ret_def)

lemma run_sget [simp]: "run_state (sget st f) c = (f (c_mem c st), c)"
  by (simp add: sget_def)

lemma run_upd_stream [simp]:
  "run_state (upd_stream st f) c = ((), c\<lparr>c_mem := (c_mem c)(st := f (c_mem c st))\<rparr>)"
  by (simp add: upd_stream_def)

lemma run_perform [simp]: "run_state (perform x) c = ((), c\<lparr>c_trace := c_trace c @ [x]\<rparr>)"
  by (simp add: perform_def)

lemma wp_ret [wp_simps]: "wp (ret a) Q c = Q a c"
  by (simp add: wp_def)

lemma wp_bind [wp_simps]: "wp (State_Monad.bind m f) Q c = wp m (\<lambda>a c'. wp (f a) Q c') c"
  by (simp add: wp_def split: prod.split)

lemma wp_gets [wp_simps]: "wp (gets f) Q c = Q (f c) c"
  by (simp add: wp_def)

lemma wp_modify [wp_simps]: "wp (modify f) Q c = Q () (f c)"
  by (simp add: wp_def)

lemma wp_ask [wp_simps]: "wp (ask q) Q c = Q (q (c_tick c)) (c\<lparr>c_tick := Suc (c_tick c)\<rparr>)"
  by (simp add: wp_def)

lemma wp_sget [wp_simps]: "wp (sget st f) Q c = Q (f (c_mem c st)) c"
  by (simp add: wp_def)

lemma wp_upd_stream [wp_simps]:
  "wp (upd_stream st f) Q c = Q () (c\<lparr>c_mem := (c_mem c)(st := f (c_mem c st))\<rparr>)"
  by (simp add: wp_def)

lemma wp_perform [wp_simps]: "wp (perform x) Q c = Q () (c\<lparr>c_trace := c_trace c @ [x]\<rparr>)"
  by (simp add: wp_def)

lemma wp_if [wp_simps]: "wp (if b then m else n) Q c = (if b then wp m Q c else wp n Q c)"
  by simp

lemma wp_ifI: "(b \<Longrightarrow> wp m Q c) \<Longrightarrow> (\<not> b \<Longrightarrow> wp n Q c) \<Longrightarrow> wp (if b then m else n) Q c"
  by simp

lemma wp_only_if [wp_simps]: "wp (only_if b m) Q c = (if b then wp m Q c else Q () c)"
  by (simp add: only_if_def wp_ret)

lemma wp_case_option [wp_simps]:
  "wp (case x of None \<Rightarrow> m | Some y \<Rightarrow> f y) Q c = (case x of None \<Rightarrow> wp m Q c | Some y \<Rightarrow> wp (f y) Q c)"
  by (simp split: option.split)

lemma wp_case_prod [wp_simps]:
  "wp (case p of (x, y) \<Rightarrow> f x y) Q c = (case p of (x, y) \<Rightarrow> wp (f x y) Q c)"
  by (simp split: prod.split)

lemma wp_let [wp_simps]: "wp (let x = v in f x) Q c = (let x = v in wp (f x) Q c)"
  by simp

lemma wp_mono: "wp m Q c \<Longrightarrow> (\<And>a c'. Q a c' \<Longrightarrow> Q' a c') \<Longrightarrow> wp m Q' c"
  by (simp add: wp_def split: prod.splits)

lemma wp_conj: "wp m (\<lambda>a c'. P a c' \<and> Q a c') c \<longleftrightarrow> wp m P c \<and> wp m Q c"
  by (simp add: wp_def split: prod.splits)

lemma wp_run: "wp m Q c \<longleftrightarrow> Q (fst (run_state m c)) (snd (run_state m c))"
  by (simp add: wp_def split: prod.split)

text \<open>
  Operations that relate every state to its successor by a fixed order: the contract behind
  \<open>this field never changes\<close>, \<open>the trace only grows\<close> and \<open>the invariant is kept\<close>. The
  rules below reduce such a claim about an operation to the same claim about the operations
  it calls. The effects the order speaks about are \<open>seen\<close>; any other effect is allowed.
\<close>

locale step_order =
  fixes R :: "conn \<Rightarrow> conn \<Rightarrow> bool" and seen :: "effect \<Rightarrow> bool"
  assumes R_refl: "R c c"
    and R_trans: "R c c' \<Longrightarrow> R c' c'' \<Longrightarrow> R c c''"
    and R_tick: "R c (c\<lparr>c_tick := t\<rparr>)"
    and R_trace: "\<not> seen x \<Longrightarrow> R c (c\<lparr>c_trace := c_trace c @ [x]\<rparr>)"
begin

abbreviation (input) "ok m \<equiv> state_io_rel R m"

lemma ok_run: "ok m \<Longrightarrow> R c (snd (run_state m c))"
  by (simp add: state_io_rel_def)

lemma ok_wp: "ok m \<Longrightarrow> wp m (\<lambda>_ c'. R c c') c"
  by (simp add: wp_run state_io_rel_def)

lemma ok_ret: "ok (ret a)"
  by (simp add: state_io_rel_def R_refl)

lemma ok_gets: "ok (gets f)"
  by (simp add: state_io_rel_def R_refl)

lemma ok_sget: "ok (sget st f)"
  by (simp add: state_io_rel_def R_refl)

lemma ok_ask: "ok (ask q)"
  by (simp add: state_io_rel_def R_tick)

lemma ok_perform: "\<not> seen x \<Longrightarrow> ok (perform x)"
  by (simp add: state_io_rel_def R_trace)

lemma ok_modify: "(\<And>c. R c (f c)) \<Longrightarrow> ok (modify f)"
  by (simp add: state_io_rel_def)

lemma ok_upd_stream: "(\<And>c. R c (c\<lparr>c_mem := (c_mem c)(st := f (c_mem c st))\<rparr>)) \<Longrightarrow> ok (upd_stream st f)"
  by (simp add: state_io_rel_def)

lemma ok_bind: "ok m \<Longrightarrow> (\<And>a. ok (f a)) \<Longrightarrow> ok (State_Monad.bind m f)"
  unfolding state_io_rel_def by (auto split: prod.split) (metis R_trans snd_conv)

lemma ok_if: "(b \<Longrightarrow> ok m) \<Longrightarrow> (\<not> b \<Longrightarrow> ok n) \<Longrightarrow> ok (if b then m else n)"
  by simp

lemma ok_only_if: "(b \<Longrightarrow> ok m) \<Longrightarrow> ok (only_if b m)"
  by (simp add: only_if_def ok_ret)

lemma ok_option: "ok m \<Longrightarrow> (\<And>y. ok (f y)) \<Longrightarrow> ok (case x of None \<Rightarrow> m | Some y \<Rightarrow> f y)"
  by (simp split: option.split)

lemma ok_prod: "(\<And>x y. ok (f x y)) \<Longrightarrow> ok (case p of (x, y) \<Rightarrow> f x y)"
  by (simp split: prod.split)

lemma ok_let: "ok (f v) \<Longrightarrow> ok (let x = v in f x)"
  by simp

lemmas ok_rules = ok_ret ok_gets ok_sget ok_ask ok_perform ok_bind ok_if ok_only_if ok_option
  ok_prod ok_let

end

end
