(* ===== verification/Lifecycle.thy ===== *)
theory Lifecycle
  imports Machine
begin

text \<open>
  The life of a stream: creation and lookup (\<open>src/src/ngx_anytls_stream.c\<close>), the caches of
  read and pending buffers and the blocking of client input
  (\<open>src/src/ngx_anytls_upstream.c\<close>, \<open>src/src/ngx_anytls_client_handler.c\<close>), what the
  resolver, the UoT code and the upstream multiplexer undo when a stream goes away, and
  \<open>ngx_anytls_stream_close\<close> itself.

  Closing a stream may let the connection read again, and reading runs the whole session
  code. The operations here take that as the argument \<open>resume\<close>, which stands for
  \<open>ngx_anytls_client_input_resume\<close> and is supplied by the theory of the client handler.
\<close>

abbreviation (input) "NGX_ANYTLS_MAX_FREE_READ_BUFS \<equiv> 32 :: nat"
abbreviation (input) "NGX_ANYTLS_MAX_FREE_PENDING_IN \<equiv> 64 :: nat"
abbreviation (input) "NGX_ANYTLS_SMALL_READ_BUF_CAPACITY \<equiv> 16384 :: nat"

section \<open>Buffer caches\<close>

text \<open>
  The caches are lists of buffers; what matters of a buffer is its capacity. Taking a buffer
  takes the first one that is large enough.
\<close>

fun pop_first :: "nat \<Rightarrow> nat list \<Rightarrow> (nat \<times> nat list) option" where
  "pop_first n [] = None"
| "pop_first n (b # bs) =
     (if b \<ge> n then Some (b, bs) else map_option (\<lambda>(x, ys). (x, b # ys)) (pop_first n bs))"

definition upstream_pop_read_buf :: "bool \<Rightarrow> nat \<Rightarrow> nat option M" where
  "upstream_pop_read_buf large capacity = do {
     l \<leftarrow> gets (\<lambda>c. if large then c_free_read_bufs_large c else c_free_read_bufs c);
     case pop_first capacity l of
       None \<Rightarrow> ret None
     | Some (b, l') \<Rightarrow> do {
         modify (\<lambda>c. if large then c\<lparr>c_free_read_bufs_large := l'\<rparr> else c\<lparr>c_free_read_bufs := l'\<rparr>);
         modify (\<lambda>c. c\<lparr>c_free_read_bufs_count := c_free_read_bufs_count c - 1\<rparr>);
         ret (Some b) } }"

definition upstream_get_read_buf :: "env \<Rightarrow> nat \<Rightarrow> nat option M" where
  "upstream_get_read_buf e sz = do {
     let capacity = sz + NGX_ANYTLS_FRAME_HEADER_LEN;
     let large = (capacity > NGX_ANYTLS_SMALL_READ_BUF_CAPACITY);
     cl \<leftarrow> upstream_pop_read_buf large capacity;
     case cl of
       Some b \<Rightarrow> ret (Some b)
     | None \<Rightarrow> do {
         alloc_chain \<leftarrow> ask (e_alloc e);
         if \<not> alloc_chain then upstream_pop_read_buf (\<not> large) capacity
         else do {
           alloc_buf \<leftarrow> ask (e_alloc e);
           if \<not> alloc_buf then upstream_pop_read_buf (\<not> large) capacity
           else do {
             alloc_data \<leftarrow> ask (e_alloc e);
             if \<not> alloc_data then upstream_pop_read_buf (\<not> large) capacity
             else ret (Some capacity) } } } }"

definition cache_read_buf :: "nat \<Rightarrow> conn \<Rightarrow> conn" where
  "cache_read_buf b c =
     (if c_free_read_bufs_count c < NGX_ANYTLS_MAX_FREE_READ_BUFS
     then (if b \<le> NGX_ANYTLS_SMALL_READ_BUF_CAPACITY
           then c\<lparr>c_free_read_bufs := b # c_free_read_bufs c\<rparr>
           else c\<lparr>c_free_read_bufs_large := b # c_free_read_bufs_large c\<rparr>)
          \<lparr>c_free_read_bufs_count := Suc (c_free_read_bufs_count c)\<rparr>
     else c)"

definition upstream_free_read_buf :: "nat \<Rightarrow> unit M" where
  "upstream_free_read_buf b = modify (cache_read_buf b)"

lemma cache_read_buf_fields [simp]:
  "c_control_out (cache_read_buf b c) = c_control_out c" "c_data_out (cache_read_buf b c) = c_data_out c"
  "c_sending (cache_read_buf b c) = c_sending c" "c_unsent (cache_read_buf b c) = c_unsent c"
  "c_trace (cache_read_buf b c) = c_trace c" "c_conf (cache_read_buf b c) = c_conf c"
  "c_remnant (cache_read_buf b c) = c_remnant c" "c_next (cache_read_buf b c) = c_next c"
  "c_pending_output (cache_read_buf b c) = c_pending_output c" "c_frames (cache_read_buf b c) = c_frames c"
  "c_mem (cache_read_buf b c) = c_mem c" "c_free_frames (cache_read_buf b c) = c_free_frames c"
  "c_closing (cache_read_buf b c) = c_closing c" "c_input_paused (cache_read_buf b c) = c_input_paused c"
  "c_client_read_blocked (cache_read_buf b c) = c_client_read_blocked c"
  "c_read_buf_size (cache_read_buf b c) = c_read_buf_size c" "c_read_buf_cap (cache_read_buf b c) = c_read_buf_cap c"
  by (simp_all add: cache_read_buf_def)

definition upstream_alloc_pending_buf :: "env \<Rightarrow> nat \<Rightarrow> nat option M" where
  "upstream_alloc_pending_buf e len = do {
     l \<leftarrow> gets c_free_pending_bufs;
     case pop_first len l of
       Some (b, l') \<Rightarrow> do {
         modify (\<lambda>c. c\<lparr>c_free_pending_bufs := l',
                       c_free_pending_bufs_count := c_free_pending_bufs_count c - 1\<rparr>);
         ret (Some b) }
     | None \<Rightarrow> do {
         ok \<leftarrow> ask (e_alloc e);
         ret (if ok then Some len else None) } }"

definition upstream_free_pending_buf :: "nat \<Rightarrow> unit M" where
  "upstream_free_pending_buf b = modify (\<lambda>c.
     if c_free_pending_bufs_count c < NGX_ANYTLS_MAX_FREE_PENDING_IN
     then c\<lparr>c_free_pending_bufs := b # c_free_pending_bufs c,
            c_free_pending_bufs_count := Suc (c_free_pending_bufs_count c)\<rparr>
     else c)"

definition upstream_free_pending :: "sptr \<Rightarrow> pending \<Rightarrow> unit M" where
  "upstream_free_pending st p = do {
     upstream_free_pending_buf (p_cap p);
     upd_stream st (\<lambda>s.
       if st_free_pending_in_count s < word_of_nat NGX_ANYTLS_MAX_FREE_PENDING_IN
       then s\<lparr>st_free_pending_in := Suc (st_free_pending_in s),
              st_free_pending_in_count := st_free_pending_in_count s + 1\<rparr>
       else s) }"

section \<open>Client input\<close>

text \<open>\<open>ngx_anytls_client_input_pause\<close>; the client connection is there as long as \<open>ac\<close>.\<close>

definition client_input_pause :: "env \<Rightarrow> rc M" where
  "client_input_pause e = do {
     modify (\<lambda>c. c\<lparr>c_input_paused := True\<rparr>);
     blocked \<leftarrow> gets c_client_read_blocked;
     if blocked then ret NGX_OK
     else do {
       modify (\<lambda>c. c\<lparr>c_client_read_blocked := True\<rparr>);
       active \<leftarrow> ask (e_flag e);
       if \<not> active then ret NGX_OK
       else do {
         r \<leftarrow> ask (e_rc e);
         ret (if r \<noteq> NGX_OK then NGX_ERROR else NGX_OK) } } }"

definition upstream_block_input :: "env \<Rightarrow> sptr \<Rightarrow> rc M" where
  "upstream_block_input e st = do {
     blocked \<leftarrow> sget st st_input_blocked;
     only_if (\<not> blocked) (do {
       upd_stream st (\<lambda>s. s\<lparr>st_input_blocked := True, st_input_exhausted := True\<rparr>);
       modify (\<lambda>c. c\<lparr>c_blocked_input_streams := Suc (c_blocked_input_streams c)\<rparr>) });
     client_input_pause e }"

definition upstream_update_input_state :: "rc M \<Rightarrow> sptr \<Rightarrow> rc M" where
  "upstream_update_input_state resume st = do {
     blocked \<leftarrow> sget st st_input_blocked;
     if \<not> blocked then ret NGX_OK
     else do {
       lowat \<leftarrow> gets (\<lambda>c. cf_max_pending_input (c_conf c) div 2);
       bytes \<leftarrow> sget st st_pending_in_bytes;
       if bytes > lowat then ret NGX_OK
       else do {
         upd_stream st (\<lambda>s. s\<lparr>st_input_blocked := False, st_input_exhausted := False\<rparr>);
         modify (\<lambda>c. c\<lparr>c_blocked_input_streams := c_blocked_input_streams c - 1\<rparr>);
         resume } } }"

fun free_pending_bufs :: "pending list \<Rightarrow> unit M" where
  "free_pending_bufs [] = ret ()"
| "free_pending_bufs (p # ps) = do { upstream_free_pending_buf (p_cap p); free_pending_bufs ps }"

definition upstream_discard_pending :: "rc M \<Rightarrow> sptr \<Rightarrow> unit M" where
  "upstream_discard_pending resume st = do {
     ps \<leftarrow> sget st st_pending_in;
     free_pending_bufs ps;
     bytes \<leftarrow> sget st st_pending_in_bytes;
     modify (\<lambda>c. c\<lparr>c_pending_input := c_pending_input c - bytes\<rparr>);
     upd_stream st (\<lambda>s. s\<lparr>st_pending_in := [], st_pending_in_bytes := 0\<rparr>);
     blocked \<leftarrow> sget st st_input_blocked;
     only_if blocked (do {
       upd_stream st (\<lambda>s. s\<lparr>st_input_blocked := False, st_input_exhausted := False\<rparr>);
       modify (\<lambda>c. c\<lparr>c_blocked_input_streams := c_blocked_input_streams c - 1\<rparr>) });
     _ \<leftarrow> resume;
     ret () }"

section \<open>What a closing stream gives back\<close>

definition resolver_cancel :: "sptr \<Rightarrow> unit M" where
  "resolver_cancel st = do {
     ctx \<leftarrow> sget st st_resolver_ctx;
     only_if ctx (do {
       perform (Eff_resolve_done st);
       upd_stream st (\<lambda>s. s\<lparr>st_resolver_ctx := False\<rparr>) });
     upd_stream st (\<lambda>s. s\<lparr>st_resolver_pending := False, st_resolver_target := RESOLVE_NONE,
                           st_resolver_domain := [], st_resolver_port := 0\<rparr>) }"

definition uot_clear_pending :: "sptr \<Rightarrow> unit M" where
  "uot_clear_pending st =
     upd_stream st (\<lambda>s. s\<lparr>st_uot_pending := [], st_uot_pending_count := 0, st_uot_pending_bytes := 0\<rparr>)"

definition uot_close :: "env \<Rightarrow> sptr \<Rightarrow> unit M" where
  "uot_close e st = do {
     counted \<leftarrow> sget st st_uot_counted;
     only_if counted (do {
       modify (\<lambda>c. c\<lparr>c_uot_streams := c_uot_streams c - 1\<rparr>);
       upd_stream st (\<lambda>s. s\<lparr>st_uot_counted := False\<rparr>) });
     resolver_cancel st;
     uot_clear_pending st;
     timer \<leftarrow> sget st st_uot_timer;
     only_if timer (do {
       timer_set \<leftarrow> ask (e_flag e);
       only_if timer_set (perform (Eff_disarm_timer (Timer_uot st))) });
     udp \<leftarrow> sget st st_udp;
     only_if udp (do {
       perform (Eff_close_udp st);
       upd_stream st (\<lambda>s. s\<lparr>st_udp := False, st_udp_family := None\<rparr>) }) }"

definition mux_unblock_read :: "sptr \<Rightarrow> unit M" where
  "mux_unblock_read st = do {
     blocked \<leftarrow> sget st st_upstream_read_blocked;
     only_if blocked (do {
       modify (\<lambda>c. c\<lparr>c_blocked_upstream_reads := remove1 st (c_blocked_upstream_reads c)\<rparr>);
       upd_stream st (\<lambda>s. s\<lparr>st_upstream_read_blocked := False, st_blocked_by_upstream := False\<rparr>) }) }"

definition mux_cancel_connect :: "sptr \<Rightarrow> unit M" where
  "mux_cancel_connect st = do {
     p \<leftarrow> sget st st_connect_pending;
     only_if p (do {
       upd_stream st (\<lambda>s. s\<lparr>st_connect_pending := False\<rparr>);
       modify (\<lambda>c. c\<lparr>c_connect_pending := remove1 st (c_connect_pending c)\<rparr>) }) }"

definition mux_stream_closing :: "sptr \<Rightarrow> unit M" where
  "mux_stream_closing st = do {
     r \<leftarrow> sget st st_upstream_read_ready;
     only_if r (do {
       modify (\<lambda>c. c\<lparr>c_read_ready := remove1 st (c_read_ready c)\<rparr>);
       upd_stream st (\<lambda>s. s\<lparr>st_upstream_read_ready := False\<rparr>) });
     w \<leftarrow> sget st st_upstream_write_ready;
     only_if w (do {
       modify (\<lambda>c. c\<lparr>c_write_ready := remove1 st (c_write_ready c)\<rparr>);
       upd_stream st (\<lambda>s. s\<lparr>st_upstream_write_ready := False\<rparr>) });
     mux_unblock_read st;
     mux_cancel_connect st }"

text \<open>\<open>ngx_anytls_upstream_state_finalize\<close> on the tracker of a stream.\<close>

definition stream_state_finalize :: "env \<Rightarrow> sptr \<Rightarrow> unit M" where
  "stream_state_finalize e st = do {
     now \<leftarrow> ask (e_now e);
     states \<leftarrow> gets c_upstream_states;
     tr \<leftarrow> sget st st_upstream_state;
     let (states', tr') = state_finalize now states tr;
     modify (\<lambda>c. c\<lparr>c_upstream_states := states'\<rparr>);
     upd_stream st (\<lambda>s. s\<lparr>st_upstream_state := tr'\<rparr>) }"

section \<open>Streams\<close>

definition stream_pool :: "env \<Rightarrow> sptr \<Rightarrow> bool M" where
  "stream_pool e st = do {
     pool \<leftarrow> sget st st_pool;
     if pool then ret True
     else do {
       ok \<leftarrow> ask (e_alloc e);
       upd_stream st (\<lambda>s. s\<lparr>st_pool := ok\<rparr>);
       ret ok } }"

definition stream_can_accept_payload :: "stream \<Rightarrow> bool" where
  "stream_can_accept_payload s \<longleftrightarrow>
     \<not> (st_in_closed s \<or> st_state s = STREAM_CLOSING \<or> st_state s = STREAM_CLOSED)"

abbreviation (input) "id_of c \<equiv> (\<lambda>p. st_id (c_mem c p))"

text \<open>A zeroed stream at a new address.\<close>

definition new_stream :: "32 word \<Rightarrow> sptr M" where
  "new_stream sid = do {
     st \<leftarrow> gets c_next;
     modify (\<lambda>c. c\<lparr>c_next := Suc (c_next c)\<rparr>);
     upd_stream st (\<lambda>_. stream_zero\<lparr>st_id := sid\<rparr>);
     ret st }"

definition stream_alloc :: "env \<Rightarrow> 32 word \<Rightarrow> sptr option M" where
  "stream_alloc e sid = do {
     ok \<leftarrow> ask (e_alloc e);
     if \<not> ok then ret None
     else do {
       st \<leftarrow> new_stream sid;
       t \<leftarrow> gets (\<lambda>c. stream_ht_insert (id_of c) (c_table c) st);
       case t of
         None \<Rightarrow> ret None
       | Some t' \<Rightarrow> do {
           modify (\<lambda>c. c\<lparr>c_table := t', c_stream_list := c_stream_list c @ [st],
                         c_active_streams := Suc (c_active_streams c)\<rparr>);
           ret (Some st) } } }"

definition stream_find :: "32 word \<Rightarrow> sptr option M" where
  "stream_find sid = do {
     st \<leftarrow> gets (\<lambda>c. stream_ht_find (id_of c) (c_table c) sid);
     case st of
       None \<Rightarrow> ret None
     | Some p \<Rightarrow> do {
         closed \<leftarrow> sget p st_closed_by_protocol;
         ret (if closed then None else Some p) } }"

definition stream_create_if_absent :: "env \<Rightarrow> 32 word \<Rightarrow> sptr option M" where
  "stream_create_if_absent e sid = do {
     st \<leftarrow> gets (\<lambda>c. stream_ht_find (id_of c) (c_table c) sid);
     case st of
       Some p \<Rightarrow> ret (Some p)
     | None \<Rightarrow> do {
         full \<leftarrow> gets (\<lambda>c. c_active_streams c \<ge> unat (cf_max_streams (c_conf c)));
         if full then ret None else stream_alloc e sid } }"

definition stream_mark_closed_by_protocol :: "sptr \<Rightarrow> unit M" where
  "stream_mark_closed_by_protocol st =
     upd_stream st (\<lambda>s. if st_closed_by_protocol s then s
                        else s\<lparr>st_closed_by_protocol := True, st_in_closed := True\<rparr>)"

definition stream_remove_ready :: "sptr \<Rightarrow> unit M" where
  "stream_remove_ready st = do {
     q \<leftarrow> sget st st_queued;
     only_if q (do {
       modify (\<lambda>c. c\<lparr>c_ready_streams := remove1 st (c_ready_streams c)\<rparr>);
       upd_stream st (\<lambda>s. s\<lparr>st_queued := False\<rparr>) }) }"

text \<open>The frames a stream that is closed for good still has in its own queue.\<close>

fun drop_out_frames :: "sptr \<Rightarrow> out_frame list \<Rightarrow> unit M" where
  "drop_out_frames st [] = ret ()"
| "drop_out_frames st (f # fs) = do {
     modify (\<lambda>c. c\<lparr>c_pending_output := c_pending_output c - of_length f,
                   c_frames := c_frames c - 1\<rparr>);
     upd_stream st (\<lambda>s. s\<lparr>st_queued_frames := st_queued_frames s - 1\<rparr>);
     (case of_recycle f of None \<Rightarrow> ret () | Some b \<Rightarrow> upstream_free_read_buf b);
     drop_out_frames st fs }"

definition stream_drop_out :: "sptr \<Rightarrow> unit M" where
  "stream_drop_out st = do {
     out \<leftarrow> sget st st_out;
     drop_out_frames st out;
     upd_stream st (\<lambda>s. s\<lparr>st_out := [], st_pending_out := 0\<rparr>) }"

definition close_sockets :: "env \<Rightarrow> sptr \<Rightarrow> unit M" where
  "close_sockets e st = do {
     up \<leftarrow> sget st st_upstream;
     only_if up (do {
       perform (Eff_close_upstream st);
       upd_stream st (\<lambda>s. s\<lparr>st_upstream := False\<rparr>) });
     counted \<leftarrow> sget st st_uot_counted;
     only_if counted (uot_close e st) }"

text \<open>The two halves of \<open>ngx_anytls_stream_close\<close>: frames still queued, or none.\<close>

definition stream_close_delayed :: "env \<Rightarrow> rc M \<Rightarrow> sptr \<Rightarrow> unit M" where
  "stream_close_delayed e resume st = do {
     upd_stream st (\<lambda>s. s\<lparr>st_state := STREAM_CLOSING, st_delayed_close := True\<rparr>);
     closing \<leftarrow> sget st st_closing;
     only_if (\<not> closing) (do {
       upd_stream st (\<lambda>s. s\<lparr>st_closing := True\<rparr>);
       modify (\<lambda>c. c\<lparr>c_closing_streams := c_closing_streams c @ [st]\<rparr>) });
     resolver_cancel st;
     close_sockets e st;
     upstream_discard_pending resume st;
     stream_state_finalize e st;
     mux_unblock_read st;
     mux_cancel_connect st }"

definition close_begin :: "env \<Rightarrow> sptr \<Rightarrow> bool M" where
  "close_begin e st = do {
     was_closing \<leftarrow> sget st st_closing;
     upd_stream st (\<lambda>s. s\<lparr>st_state := STREAM_CLOSED, st_delayed_close := False, st_ready_out := False,
                           st_blocked_by_client := False, st_closing := False\<rparr>);
     stream_remove_ready st;
     resolver_cancel st;
     stream_state_finalize e st;
     ret was_closing }"

definition stream_close_now :: "env \<Rightarrow> rc M \<Rightarrow> sptr \<Rightarrow> unit M" where
  "stream_close_now e resume st = do {
     was_closing \<leftarrow> close_begin e st;
     stream_drop_out st;
     close_sockets e st;
     upd_stream st (\<lambda>s. s\<lparr>st_uot_pending := [], st_uot_pending_count := 0, st_uot_pending_bytes := 0\<rparr>);
     upstream_discard_pending resume st;
     mux_cancel_connect st;
     only_if was_closing (modify (\<lambda>c. c\<lparr>c_closing_streams := remove1 st (c_closing_streams c)\<rparr>));
     modify (\<lambda>c. c\<lparr>c_stream_list := remove1 st (c_stream_list c),
                   c_table := stream_ht_remove (id_of c) (c_table c) st,
                   c_active_streams := c_active_streams c - 1\<rparr>);
     pool \<leftarrow> sget st st_pool;
     only_if pool (perform (Eff_destroy_pool st)) }"

definition stream_close :: "env \<Rightarrow> rc M \<Rightarrow> sptr \<Rightarrow> unit M" where
  "stream_close e resume st = do {
     state \<leftarrow> sget st st_state;
     if state = STREAM_CLOSED then ret ()
     else do {
       stream_mark_closed_by_protocol st;
       mux_stream_closing st;
       closing \<leftarrow> gets c_closing;
       queued \<leftarrow> sget st st_queued_frames;
       if \<not> closing \<and> queued \<noteq> 0 then stream_close_delayed e resume st
       else stream_close_now e resume st } }"

section \<open>What closing a stream leaves alone\<close>

text \<open>
  The part of the state that belongs to the output towards the client, and what the session
  code keeps between two reads. An order on states that only looks at this view is respected
  by everything in this theory, if dropping the queued frames of a stream and
  \<open>resume\<close> respect it.
\<close>

definition out_view where
  "out_view c =
     (c_conf c, c_control_out c, c_data_out c, c_sending c, c_unsent c,
      (\<lambda>p. st_out (c_mem c p)), (\<lambda>p. st_queued_frames (c_mem c p)),
      c_pending_output c, c_frames c, c_read_buf_size c, c_read_buf_cap c, c_remnant c, c_input_paused c,
      c_client_read_blocked c, c_next c, c_closing c, c_trace c)"

text \<open>The begin of a close changes neither the phase of the connection nor the frame counts.\<close>

interpretation keeps: step_order
  "\<lambda>c c'. c_closing c' = c_closing c \<and> (\<forall>p. st_queued_frames (c_mem c' p) = st_queued_frames (c_mem c p))"
  "\<lambda>_. False"
  by unfold_locales auto

lemma close_begin_keeps:
  "c_closing (snd (run_state (close_begin e st) c)) = c_closing c
    \<and> (\<forall>p. st_queued_frames (c_mem (snd (run_state (close_begin e st) c)) p) = st_queued_frames (c_mem c p))"
proof (rule keeps.ok_run)
  show "keeps.ok (close_begin e st)"
    unfolding close_begin_def stream_remove_ready_def resolver_cancel_def stream_state_finalize_def Let_def
    by (intro keeps.ok_rules keeps.ok_modify keeps.ok_upd_stream; simp)
qed

locale out_order = step_order +
  assumes R_view: "out_view c = out_view c' \<Longrightarrow> R c c'"
    and R_pause: "R c (c\<lparr>c_input_paused := True, c_client_read_blocked := True\<rparr>)"
    and R_drop: "c_closing c \<or> st_queued_frames (c_mem c st) = 0 \<Longrightarrow> R c (snd (run_state (stream_drop_out st) c))"
begin

lemma ok_modify_view: "(\<And>c. out_view (f c) = out_view c) \<Longrightarrow> ok (modify f)"
  by (rule ok_modify, rule R_view) simp

lemma ok_upd_stream_view:
  "(\<And>s. st_out (f s) = st_out s \<and> st_queued_frames (f s) = st_queued_frames s) \<Longrightarrow> ok (upd_stream st f)"
  by (rule ok_upd_stream, rule R_view) (simp add: out_view_def fun_eq_iff)

lemmas ok_view = ok_modify_view ok_upd_stream_view

lemma ok_buffers:
  "ok (upstream_free_read_buf b)" "ok (upstream_free_pending_buf b)" "ok (upstream_free_pending st p)"
  "ok (upstream_pop_read_buf large n)" "ok (upstream_get_read_buf e n)" "ok (upstream_alloc_pending_buf e n)"
  unfolding upstream_free_read_buf_def upstream_free_pending_buf_def upstream_free_pending_def
    upstream_pop_read_buf_def upstream_get_read_buf_def upstream_alloc_pending_buf_def
  by (intro ok_rules ok_view; simp add: out_view_def)+

lemma ok_free_pending_bufs: "ok (free_pending_bufs ps)"
  by (induction ps) (auto intro!: ok_rules ok_buffers)

lemma ok_input_pause: "ok (client_input_pause e)"
  unfolding state_io_rel_def
proof
  fix c
  let ?c' = "snd (run_state (client_input_pause e) c)"
  have "out_view (c\<lparr>c_input_paused := True, c_client_read_blocked := True\<rparr>) = out_view ?c'"
    by (simp add: client_input_pause_def out_view_def)
  then show "R c ?c'" using R_trans [OF R_pause R_view] by blast
qed

lemma ok_block_input: "ok (upstream_block_input e st)"
  unfolding upstream_block_input_def
  by (intro ok_rules ok_view ok_input_pause; simp add: out_view_def)

lemmas ok_pause = ok_input_pause ok_block_input

lemma ok_resolver_cancel: "\<not> seen (Eff_resolve_done st) \<Longrightarrow> ok (resolver_cancel st)"
  unfolding resolver_cancel_def
  by (intro ok_rules ok_view; simp add: out_view_def)

lemma ok_mux_closing:
  "ok (mux_unblock_read st)" "ok (mux_cancel_connect st)" "ok (mux_stream_closing st)"
  unfolding mux_stream_closing_def mux_unblock_read_def mux_cancel_connect_def
  by (intro ok_rules ok_view; simp add: out_view_def)+

lemma ok_stream_state_finalize: "ok (stream_state_finalize e st)"
  unfolding stream_state_finalize_def Let_def
  by (intro ok_rules ok_view; simp add: out_view_def)

lemma ok_stream_small:
  "ok (stream_pool e st)" "ok (stream_find sid)" "ok (stream_mark_closed_by_protocol st)"
  "ok (stream_remove_ready st)"
  unfolding stream_pool_def stream_find_def stream_mark_closed_by_protocol_def stream_remove_ready_def
  by (intro ok_rules ok_view; simp add: out_view_def)+

lemma ok_update_input: "ok resume \<Longrightarrow> ok (upstream_update_input_state resume st)"
  unfolding upstream_update_input_state_def
  by (intro ok_rules ok_view; simp add: out_view_def)

lemma ok_discard_pending: "ok resume \<Longrightarrow> ok (upstream_discard_pending resume st)"
  unfolding upstream_discard_pending_def
  by (intro ok_rules ok_view ok_free_pending_bufs; simp add: out_view_def)

end

text \<open>An order that does not look at the effects of closing a stream.\<close>

locale close_order = out_order +
  assumes seen_close: "\<not> seen (Eff_resolve_done st)" "\<not> seen (Eff_disarm_timer t)" "\<not> seen (Eff_arm_timer t)"
    "\<not> seen (Eff_close_udp st)" "\<not> seen (Eff_close_upstream st)" "\<not> seen (Eff_destroy_pool st)"
begin

lemma ok_uot_close: "ok (uot_close e st)"
  unfolding uot_close_def uot_clear_pending_def
  by (intro ok_rules ok_view ok_resolver_cancel; simp add: out_view_def seen_close)

lemma ok_close_sockets: "ok (close_sockets e st)"
  unfolding close_sockets_def
  by (intro ok_rules ok_view ok_uot_close; simp add: out_view_def seen_close)

lemma ok_close_begin: "ok (close_begin e st)"
  unfolding close_begin_def
  by (intro ok_rules ok_view ok_stream_small ok_stream_state_finalize ok_resolver_cancel;
      simp add: out_view_def seen_close)

lemma ok_close_rest: "ok resume \<Longrightarrow> ok (do {
     close_sockets e st;
     upd_stream st (\<lambda>s. s\<lparr>st_uot_pending := [], st_uot_pending_count := 0, st_uot_pending_bytes := 0\<rparr>);
     upstream_discard_pending resume st;
     mux_cancel_connect st;
     only_if was_closing (modify (\<lambda>c. c\<lparr>c_closing_streams := remove1 st (c_closing_streams c)\<rparr>));
     modify (\<lambda>c. c\<lparr>c_stream_list := remove1 st (c_stream_list c),
                   c_table := stream_ht_remove (id_of c) (c_table c) st,
                   c_active_streams := c_active_streams c - 1\<rparr>);
     pool \<leftarrow> sget st st_pool;
     only_if pool (perform (Eff_destroy_pool st)) })"
  by (intro ok_rules ok_view ok_mux_closing ok_close_sockets ok_discard_pending;
      simp add: out_view_def seen_close)

lemma ok_stream_close_now:
  assumes "ok resume" and "c_closing c \<or> st_queued_frames (c_mem c st) = 0"
  shows "R c (snd (run_state (stream_close_now e resume st) c))"
proof -
  define c1 where "c1 = snd (run_state (close_begin e st) c)"
  define c2 where "c2 = snd (run_state (stream_drop_out st) c1)"
  have "R c c1" unfolding c1_def by (rule ok_run [OF ok_close_begin])
  moreover have "R c1 c2"
    unfolding c2_def
    by (rule R_drop) (use assms(2) close_begin_keeps [of e st c] in \<open>simp add: c1_def\<close>)
  moreover have "R c2 (snd (run_state (stream_close_now e resume st) c))"
  proof -
    define was where "was = fst (run_state (close_begin e st) c)"
    have "run_state (close_begin e st) c = (was, c1)" "run_state (stream_drop_out st) c1 = ((), c2)"
      by (simp_all add: was_def c1_def c2_def prod_eq_iff)
    then show ?thesis
      using ok_run [OF ok_close_rest [OF assms(1)], of c2 e st was]
      unfolding stream_close_now_def by simp
  qed
  ultimately show ?thesis using R_trans by blast
qed

lemma ok_stream_close_delayed: "ok resume \<Longrightarrow> ok (stream_close_delayed e resume st)"
  unfolding stream_close_delayed_def
  by (intro ok_rules ok_view ok_mux_closing ok_close_sockets ok_discard_pending ok_stream_state_finalize
      ok_resolver_cancel; simp add: out_view_def seen_close)

lemma ok_stream_close: "ok resume \<Longrightarrow> ok (stream_close e resume st)"
proof -
  assume r: "ok resume"
  have "ok (do { closing \<leftarrow> gets c_closing; queued \<leftarrow> sget st st_queued_frames;
      if \<not> closing \<and> queued \<noteq> 0 then stream_close_delayed e resume st else stream_close_now e resume st })"
    unfolding state_io_rel_def
    using ok_run [OF ok_stream_close_delayed [OF r]] ok_stream_close_now [OF r] by auto
  then show ?thesis
    unfolding stream_close_def
    by (intro ok_bind [OF ok_sget] ok_if ok_ret ok_bind [OF ok_stream_small(3)] ok_bind [OF ok_mux_closing(3)])
qed

end

end
