(* ===== verification/Client_Mux.thy ===== *)
theory Client_Mux
  imports Lifecycle
begin

text \<open>
  The multiplexer towards the client, \<open>src/src/ngx_anytls_client_mux.c\<close>, with the parts of
  the upstream multiplexer it calls for backpressure (\<open>src/src/ngx_anytls_upstream_mux.c\<close>)
  and the end of a connection (\<open>src/src/ngx_anytls_connection.c\<close>). Frames wait in
  \<open>control_out\<close> (control frames), \<open>data_out\<close> (data frames of all streams, in the order
  they go out) and the \<open>out\<close> queue of their stream; \<open>ready_streams\<close> are the streams with
  a non-empty \<open>out\<close>; a flush moves frames to \<open>sending\<close> and writes them.
\<close>

abbreviation (input) "NGX_ANYTLS_MAX_OUT_FRAMES \<equiv> 10000 :: nat"
abbreviation (input) "NGX_ANYTLS_MAX_STREAM_FRAMES \<equiv> 1024 :: nat"
abbreviation (input) "NGX_ANYTLS_MAX_FREE_FRAMES \<equiv> 1024 :: nat"
abbreviation (input) "NGX_ANYTLS_MIN_SCHEDULE_FRAMES \<equiv> 16 :: nat"
abbreviation (input) "NGX_ANYTLS_MAX_SCHEDULE_BYTES \<equiv> 1048576 :: nat"
abbreviation (input) "NGX_ANYTLS_MAX_DIRECT_FRAMES \<equiv> 4 :: nat"
abbreviation (input) "NGX_ANYTLS_CLIENT_DRAIN_FRAMES \<equiv> 32 :: nat"
abbreviation (input) "NGX_ANYTLS_TLS_RECORD_SIZE \<equiv> 16384 :: nat"

section \<open>Frames\<close>

definition frame_zero :: out_frame where
  "frame_zero = \<lparr>of_cmd = 0, of_stream = None, of_length = 0, of_bytes = [], of_blocked = False,
     of_fin = False, of_own_payload = False, of_recycle = None\<rparr>"

text \<open>\<open>ngx_anytls_get_frame\<close>: a recycled frame is reset, so only their number matters.\<close>

definition get_frame :: "env \<Rightarrow> out_frame option M" where
  "get_frame e = do {
     n \<leftarrow> gets c_free_frames;
     if n > 0 then do {
       modify (\<lambda>c. c\<lparr>c_free_frames := c_free_frames c - 1\<rparr>);
       ret (Some frame_zero) }
     else do {
       ok \<leftarrow> ask (e_alloc e);
       ret (if ok then Some frame_zero else None) } }"

definition free_frame :: "out_frame \<Rightarrow> unit M" where
  "free_frame f = modify (\<lambda>c. c\<lparr>c_free_frames :=
     (if c_free_frames c < NGX_ANYTLS_MAX_FREE_FRAMES then Suc (c_free_frames c) else c_free_frames c)\<rparr>)"

definition frame_strong_ref :: "nat \<Rightarrow> sptr option \<Rightarrow> bool" where
  "frame_strong_ref cmd st \<longleftrightarrow> st \<noteq> None
     \<and> (cmd = NGX_ANYTLS_CMD_PSH \<or> cmd = NGX_ANYTLS_CMD_FIN \<or> cmd = NGX_ANYTLS_CMD_SYNACK)"

definition frame_done :: "out_frame \<Rightarrow> unit M" where
  "frame_done f = do {
     modify (\<lambda>c. c\<lparr>c_pending_output := c_pending_output c - of_length f\<rparr>);
     (case of_stream f of
        None \<Rightarrow> ret ()
      | Some st \<Rightarrow> do {
          upd_stream st (\<lambda>s. s\<lparr>st_queued_frames := st_queued_frames s - 1,
                                st_pending_out := st_pending_out s - of_length f\<rparr>);
          only_if (of_fin f) (upd_stream st (\<lambda>s. s\<lparr>st_fin_sent := True, st_out_closed := True\<rparr>));
          (case of_recycle f of None \<Rightarrow> ret () | Some b \<Rightarrow> upstream_free_read_buf b) });
     free_frame f;
     modify (\<lambda>c. c\<lparr>c_frames := c_frames c - 1\<rparr>) }"

text \<open>\<open>ngx_anytls_default_frame_handler\<close>: the bookkeeping above, then a delayed close.\<close>

definition default_frame_handler :: "env \<Rightarrow> rc M \<Rightarrow> out_frame \<Rightarrow> unit M" where
  "default_frame_handler e resume f = do {
     frame_done f;
     (case of_stream f of
        None \<Rightarrow> ret ()
      | Some st \<Rightarrow> do {
          s \<leftarrow> sget st (\<lambda>s. s);
          only_if (st_state s = STREAM_CLOSING \<and> st_queued_frames s = 0) (stream_close e resume st) }) }"

definition stream_is_packet_mode :: "stream \<Rightarrow> bool" where
  "stream_is_packet_mode s \<longleftrightarrow> st_upstream_type s = UPSTREAM_UOT"

definition client_mux_mark_ready :: "sptr \<Rightarrow> unit M" where
  "client_mux_mark_ready st = do {
     s \<leftarrow> sget st (\<lambda>s. s);
     only_if (\<not> st_queued s) (do {
       modify (\<lambda>c. c\<lparr>c_ready_streams :=
                      (if stream_is_packet_mode s then st # c_ready_streams c
                       else c_ready_streams c @ [st])\<rparr>);
       upd_stream st (\<lambda>s. s\<lparr>st_queued := True\<rparr>) }) }"

section \<open>Timers and the write event\<close>

definition arm_write_timer :: "unit M" where
  "arm_write_timer = do {
     off \<leftarrow> gets (\<lambda>c. c_closing c \<or> cf_write_timeout (c_conf c) = 0 \<or> c_write_timer c);
     only_if (\<not> off) (do {
       perform (Eff_arm_timer Timer_write);
       modify (\<lambda>c. c\<lparr>c_write_timer := True\<rparr>) }) }"

definition disarm_write_timer :: "unit M" where
  "disarm_write_timer = do {
     set \<leftarrow> gets c_write_timer;
     only_if set (do {
       perform (Eff_disarm_timer Timer_write);
       modify (\<lambda>c. c\<lparr>c_write_timer := False\<rparr>) }) }"

definition client_mux_post_write :: "unit M" where
  "client_mux_post_write = do {
     p \<leftarrow> gets c_write_pending;
     only_if (\<not> p) (do {
       modify (\<lambda>c. c\<lparr>c_write_pending := True\<rparr>);
       arm_write_timer;
       perform Eff_post_client_write }) }"

section \<open>Queueing\<close>

definition client_mux_has_room :: "conn \<Rightarrow> nat \<Rightarrow> bool" where
  "client_mux_has_room c len \<longleftrightarrow>
     c_pending_output c + NGX_ANYTLS_FRAME_HEADER_LEN + len \<le> cf_max_pending_output (c_conf c)"

definition client_mux_can_accept_output :: "conn \<Rightarrow> nat \<Rightarrow> bool" where
  "client_mux_can_accept_output c len \<longleftrightarrow> \<not> c_output_pressure c \<and> client_mux_has_room c len"

definition queue_connection_frame :: "out_frame \<Rightarrow> unit M" where
  "queue_connection_frame f = modify (\<lambda>c. c\<lparr>c_data_out := c_data_out c @ [f]\<rparr>)"

definition queue_blocked_frame :: "out_frame \<Rightarrow> unit M" where
  "queue_blocked_frame f = modify (\<lambda>c. c\<lparr>c_control_out := c_control_out c @ [f]\<rparr>)"

text \<open>
  \<open>ngx_anytls_queue_prepared_frame\<close>: after the limits, the frame gets its stream and the
  length of its header, is counted, and goes to one of the three queues.
\<close>

definition queued_frame :: "sptr option \<Rightarrow> out_frame \<Rightarrow> out_frame" where
  "queued_frame st f = f\<lparr>of_stream := st, of_length := of_length f + NGX_ANYTLS_FRAME_HEADER_LEN,
     of_blocked := (of_blocked f \<or> st = None)\<rparr>"

definition place_frame :: "sptr option \<Rightarrow> out_frame \<Rightarrow> unit M" where
  "place_frame st f = do {
     let strong = frame_strong_ref (of_cmd f) st;
     (case st of
        None \<Rightarrow> ret ()
      | Some p \<Rightarrow>
          only_if strong (do {
            upd_stream p (\<lambda>s. s\<lparr>st_queued_frames := Suc (st_queued_frames s),
                                 st_pending_out := st_pending_out s + of_length f\<rparr>);
            only_if (of_fin f) (upd_stream p (\<lambda>s. s\<lparr>st_fin_queued := True\<rparr>)) }));
     (case st of
        None \<Rightarrow> queue_blocked_frame f
      | Some p \<Rightarrow>
          if of_blocked f then queue_blocked_frame f
          else do {
            direct \<leftarrow> gets (\<lambda>c. strong \<and> of_cmd f = NGX_ANYTLS_CMD_PSH
              \<and> st_out (c_mem c p) = [] \<and> c_ready_streams c = []
              \<and> c_pending_output c \<le> cf_max_pending_output (c_conf c) div 2
              \<and> st_direct_count (c_mem c p) < NGX_ANYTLS_MAX_DIRECT_FRAMES);
            if direct then do {
              queue_connection_frame f;
              upd_stream p (\<lambda>s. s\<lparr>st_direct_count := Suc (st_direct_count s)\<rparr>) }
            else do {
              upd_stream p (\<lambda>s. s\<lparr>st_out := st_out s @ [f]\<rparr>);
              client_mux_mark_ready p;
              upd_stream p (\<lambda>s. s\<lparr>st_direct_count := 0\<rparr>) } });
     modify (\<lambda>c. c\<lparr>c_pending_output := c_pending_output c + of_length f,
                   c_frames := Suc (c_frames c)\<rparr>) }"

definition queue_prepared_frame :: "sptr option \<Rightarrow> out_frame \<Rightarrow> rc M" where
  "queue_prepared_frame st f = do {
     frames \<leftarrow> gets c_frames;
     queued \<leftarrow> (case st of None \<Rightarrow> ret 0 | Some p \<Rightarrow> sget p st_queued_frames);
     if frames \<ge> NGX_ANYTLS_MAX_OUT_FRAMES then do { free_frame f; ret NGX_ERROR }
     else if frame_strong_ref (of_cmd f) st \<and> of_cmd f = NGX_ANYTLS_CMD_PSH
             \<and> queued \<ge> NGX_ANYTLS_MAX_STREAM_FRAMES
     then do { free_frame f; ret NGX_ERROR }
     else do {
       place_frame st (queued_frame st f);
       client_mux_post_write;
       ret NGX_OK } }"

definition client_mux_queue_frame ::
  "env \<Rightarrow> sptr option \<Rightarrow> nat \<Rightarrow> 32 word \<Rightarrow> buffer \<Rightarrow> rc M" where
  "client_mux_queue_frame e st cmd sid data = do {
     let len = length data;
     room \<leftarrow> gets (\<lambda>c. client_mux_has_room c len);
     if len > NGX_ANYTLS_MAX_FRAME_DATA then ret NGX_ERROR
     else if cmd = NGX_ANYTLS_CMD_PSH \<and> \<not> room then ret NGX_AGAIN
     else do {
       fo \<leftarrow> get_frame e;
       case fo of
         None \<Rightarrow> ret NGX_ERROR
       | Some f0 \<Rightarrow> do {
           let f1 = f0\<lparr>of_cmd := cmd, of_fin := (cmd = NGX_ANYTLS_CMD_FIN),
                       of_blocked := \<not> (cmd = NGX_ANYTLS_CMD_PSH \<or> cmd = NGX_ANYTLS_CMD_FIN)\<rparr>;
           ok \<leftarrow> (if len > 0 then ask (e_alloc e) else ret True);
           if \<not> ok then do { free_frame f1; ret NGX_ERROR }
           else queue_prepared_frame st
                  (f1\<lparr>of_own_payload := (len > 0), of_length := len,
                      of_bytes := write_frame_header cmd sid (word_of_nat len) @ data\<rparr>) } } }"

definition client_mux_queue_ref_frame ::
  "env \<Rightarrow> sptr option \<Rightarrow> nat \<Rightarrow> 32 word \<Rightarrow> buffer \<Rightarrow> rc M" where
  "client_mux_queue_ref_frame e st cmd sid data = do {
     let len = length data;
     room \<leftarrow> gets (\<lambda>c. client_mux_has_room c len);
     if len > NGX_ANYTLS_MAX_FRAME_DATA then ret NGX_ERROR
     else if cmd = NGX_ANYTLS_CMD_PSH \<and> \<not> room then ret NGX_AGAIN
     else do {
       fo \<leftarrow> get_frame e;
       case fo of
         None \<Rightarrow> ret NGX_ERROR
       | Some f0 \<Rightarrow>
           queue_prepared_frame st
             (f0\<lparr>of_cmd := cmd, of_fin := (cmd = NGX_ANYTLS_CMD_FIN),
                 of_blocked := \<not> (cmd = NGX_ANYTLS_CMD_PSH \<or> cmd = NGX_ANYTLS_CMD_FIN),
                 of_length := len,
                 of_bytes := write_frame_header cmd sid (word_of_nat len) @ data\<rparr>) } }"

text \<open>
  A payload chain of one buffer: its bytes, the capacity of the buffer, and whether there is
  room for a header before the bytes. The length of the frame is an argument of its own.
\<close>

record chain =
  ch_bytes :: buffer
  ch_cap :: nat
  ch_headroom :: bool

definition client_mux_queue_chain_frame ::
  "env \<Rightarrow> sptr option \<Rightarrow> nat \<Rightarrow> 32 word \<Rightarrow> chain option \<Rightarrow> nat \<Rightarrow> bool \<Rightarrow> bool \<Rightarrow> rc M" where
  "client_mux_queue_chain_frame e st cmd sid payload len recycle room_checked = do {
     room \<leftarrow> gets (\<lambda>c. client_mux_has_room c len);
     if len > NGX_ANYTLS_MAX_FRAME_DATA then ret NGX_ERROR
     else if cmd = NGX_ANYTLS_CMD_PSH \<and> \<not> room_checked \<and> \<not> room then ret NGX_AGAIN
     else do {
       fo \<leftarrow> get_frame e;
       case fo of
         None \<Rightarrow> ret NGX_ERROR
       | Some f0 \<Rightarrow> do {
           let f1 = f0\<lparr>of_cmd := cmd, of_fin := (cmd = NGX_ANYTLS_CMD_FIN),
                       of_blocked := (cmd \<noteq> NGX_ANYTLS_CMD_PSH), of_length := len\<rparr>;
           let header = write_frame_header cmd sid (word_of_nat len);
           (case payload of
              None \<Rightarrow> queue_prepared_frame st (f1\<lparr>of_bytes := header\<rparr>)
            | Some ch \<Rightarrow> do {
                let f2 = f1\<lparr>of_recycle := (if recycle then Some (ch_cap ch) else None)\<rparr>;
                if cmd = NGX_ANYTLS_CMD_PSH \<and> ch_headroom ch
                then queue_prepared_frame st (f2\<lparr>of_bytes := header @ ch_bytes ch\<rparr>)
                else queue_prepared_frame st
                       (f2\<lparr>of_bytes := header @ (if len = 0 then [] else ch_bytes ch)\<rparr>) }) } } }"

definition client_mux_send_synack :: "env \<Rightarrow> sptr \<Rightarrow> buffer \<Rightarrow> rc M" where
  "client_mux_send_synack e st data = do {
     sent \<leftarrow> sget st st_synack_sent;
     if sent then ret NGX_OK
     else do {
       upd_stream st (\<lambda>s. s\<lparr>st_synack_sent := True\<rparr>);
       version \<leftarrow> gets (\<lambda>c. sc_peer_version (c_session_core c));
       sid \<leftarrow> sget st st_id;
       if version < 2 then ret NGX_OK
       else client_mux_queue_ref_frame e (Some st) NGX_ANYTLS_CMD_SYNACK sid data } }"

definition client_mux_queue_error :: "env \<Rightarrow> sptr option \<Rightarrow> buffer \<Rightarrow> rc M" where
  "client_mux_queue_error e st data = do {
     sid \<leftarrow> (case st of None \<Rightarrow> ret 0 | Some p \<Rightarrow> sget p st_id);
     client_mux_queue_ref_frame e st NGX_ANYTLS_CMD_ALERT sid data }"

section \<open>Scheduling\<close>

text \<open>
  One round of the loops in \<open>ngx_anytls_schedule_stream_frames\<close>: the first ready stream
  gives its first frame to \<open>data_out\<close> and queues up again if it has more. The two loops
  of the source differ only in the condition \<open>goes\<close>. The number of rounds is at most
  \<open>schedule_fuel\<close>, since each one takes a stream without frames from the ready queue or
  a frame from a ready stream.
\<close>

definition schedule_round :: "(nat \<times> nat) M" where
  "schedule_round = do {
     st \<leftarrow> gets (\<lambda>c. hd (c_ready_streams c));
     stream_remove_ready st;
     out \<leftarrow> sget st st_out;
     case out of
       [] \<Rightarrow> ret (0, 0)
     | f # fs \<Rightarrow> do {
         upd_stream st (\<lambda>s. s\<lparr>st_out := fs\<rparr>);
         queue_connection_frame f;
         only_if (fs \<noteq> []) (client_mux_mark_ready st);
         ret (1, of_length f) } }"

fun schedule_loop :: "nat \<Rightarrow> (nat \<Rightarrow> nat \<Rightarrow> bool) \<Rightarrow> nat \<Rightarrow> nat \<Rightarrow> unit M" where
  "schedule_loop 0 goes frames bytes = ret ()"
| "schedule_loop (Suc n) goes frames bytes = do {
     empty \<leftarrow> gets (\<lambda>c. c_ready_streams c = []);
     if empty \<or> \<not> goes frames bytes then ret ()
     else do {
       r \<leftarrow> schedule_round;
       schedule_loop n goes (frames + fst r) (bytes + snd r) } }"

definition schedule_fuel :: "conn \<Rightarrow> nat" where
  "schedule_fuel c =
     length (c_ready_streams c) + sum_list (map (\<lambda>st. length (st_out (c_mem c st))) (c_ready_streams c))"

definition schedule_stream_frames :: "nat \<Rightarrow> unit M" where
  "schedule_stream_frames max_frames = do {
     budget0 \<leftarrow> gets (\<lambda>c. min (cf_max_pending_output (c_conf c) div 4) NGX_ANYTLS_MAX_SCHEDULE_BYTES);
     let byte_budget = (if budget0 = 0 then NGX_ANYTLS_MAX_FRAME_DATA else budget0);
     active \<leftarrow> gets c_active_streams;
     let min_frames =
       (if max_frames > 0 then max_frames
        else min (if active > NGX_ANYTLS_MIN_SCHEDULE_FRAMES * 4 then active div 4
                  else NGX_ANYTLS_MIN_SCHEDULE_FRAMES) 256);
     fuel \<leftarrow> gets schedule_fuel;
     schedule_loop fuel
       (\<lambda>frames bytes. if max_frames > 0 then frames < min_frames \<and> bytes < byte_budget
                       else frames < min_frames \<or> bytes < byte_budget) 0 0 }"

section \<open>Backpressure on upstream reads\<close>

text \<open>\<open>ngx_anytls_upstream_mux_read_size\<close>.\<close>

definition mux_read_size :: "conn \<Rightarrow> sptr \<Rightarrow> nat" where
  "mux_read_size c st =
     (let sz = min (cf_buffer_size (c_conf c)) NGX_ANYTLS_MAX_FRAME_DATA in
      if st_upstream_type (c_mem c st) \<noteq> UPSTREAM_UOT
         \<and> sz > NGX_ANYTLS_TLS_RECORD_SIZE - NGX_ANYTLS_FRAME_HEADER_LEN
      then NGX_ANYTLS_TLS_RECORD_SIZE - NGX_ANYTLS_FRAME_HEADER_LEN else sz)"

definition mux_read_conn :: "stream \<Rightarrow> bool" where
  "mux_read_conn s = (if st_upstream_type s = UPSTREAM_UOT then st_udp s else st_upstream s)"

definition mux_stream_readable :: "stream \<Rightarrow> bool" where
  "mux_stream_readable s \<longleftrightarrow>
     mux_read_conn s \<and> (st_state s = STREAM_CONNECTED \<or> st_state s = STREAM_HALF_CLOSED)"

definition upstream_block_read :: "env \<Rightarrow> sptr \<Rightarrow> rc M" where
  "upstream_block_read e st = do {
     blocked \<leftarrow> sget st st_upstream_read_blocked;
     if blocked then ret NGX_OK
     else do {
       upd_stream st (\<lambda>s. s\<lparr>st_upstream_read_blocked := True, st_blocked_by_upstream := True\<rparr>);
       modify (\<lambda>c. c\<lparr>c_blocked_upstream_reads := c_blocked_upstream_reads c @ [st]\<rparr>);
       active \<leftarrow> ask (e_flag e);
       if \<not> active then ret NGX_OK
       else do {
         r \<leftarrow> ask (e_rc e);
         ret (if r \<noteq> NGX_OK then NGX_ERROR else NGX_OK) } } }"

text \<open>The loop over \<open>blocked_upstream_reads\<close>; it stops when it closes a stream.\<close>

fun process_blocked_loop :: "env \<Rightarrow> rc M \<Rightarrow> sptr list \<Rightarrow> nat \<Rightarrow> nat M" where
  "process_blocked_loop e resume [] resumed = ret resumed"
| "process_blocked_loop e resume (st # sts) resumed = do {
     readable \<leftarrow> sget st mux_stream_readable;
     if \<not> readable then do {
       mux_unblock_read st;
       process_blocked_loop e resume sts resumed }
     else do {
       stop \<leftarrow> gets (\<lambda>c. c_output_pressure c \<or> \<not> client_mux_has_room c (mux_read_size c st));
       if stop then ret resumed
       else do {
         mux_unblock_read st;
         r \<leftarrow> ask (e_rc e);
         if r \<noteq> NGX_OK then do { stream_close e resume st; ret resumed }
         else process_blocked_loop e resume sts (Suc resumed) } } }"

definition mux_process_blocked :: "env \<Rightarrow> rc M \<Rightarrow> nat M" where
  "mux_process_blocked e resume = do {
     sts \<leftarrow> gets c_blocked_upstream_reads;
     process_blocked_loop e resume sts 0 }"

definition add_resumed :: "nat \<Rightarrow> unit M" where
  "add_resumed n = modify (\<lambda>c. c\<lparr>c_resumed_streams := c_resumed_streams c + n\<rparr>)"

definition mux_resume_reads :: "env \<Rightarrow> rc M \<Rightarrow> unit M" where
  "mux_resume_reads e resume = do {
     modify (\<lambda>c. c\<lparr>c_output_pressure := False\<rparr>);
     n \<leftarrow> mux_process_blocked e resume;
     add_resumed n }"

definition mux_on_client_mux_result :: "env \<Rightarrow> rc M \<Rightarrow> bool \<Rightarrow> unit M" where
  "mux_on_client_mux_result e resume pressure_released = do {
     only_if pressure_released (mux_resume_reads e resume);
     n \<leftarrow> mux_process_blocked e resume;
     add_resumed n }"

fun suspend_reads_loop :: "env \<Rightarrow> sptr list \<Rightarrow> unit M" where
  "suspend_reads_loop e [] = ret ()"
| "suspend_reads_loop e (st # sts) = do {
     modify (\<lambda>c. c\<lparr>c_read_ready := remove1 st (c_read_ready c)\<rparr>);
     upd_stream st (\<lambda>s. s\<lparr>st_upstream_read_ready := False\<rparr>);
     s \<leftarrow> sget st (\<lambda>s. s);
     (if \<not> mux_read_conn s \<or> st_state s = STREAM_CLOSED \<or> st_state s = STREAM_CLOSING then ret ()
      else do { _ \<leftarrow> upstream_block_read e st; ret () });
     suspend_reads_loop e sts }"

definition mux_suspend_reads :: "env \<Rightarrow> unit M" where
  "mux_suspend_reads e = do {
     modify (\<lambda>c. c\<lparr>c_output_pressure := True\<rparr>);
     sts \<leftarrow> gets c_read_ready;
     suspend_reads_loop e sts }"

section \<open>Flushing\<close>

text \<open>
  \<open>recycle_sent_frames\<close>: the frames at the head of \<open>sending\<close> without unsent bytes go to
  their handler. The number of rounds is the length of \<open>sending\<close>, which a handler leaves
  alone unless it ends the connection.
\<close>

fun recycle_loop :: "env \<Rightarrow> rc M \<Rightarrow> nat \<Rightarrow> unit M" where
  "recycle_loop e resume 0 = ret ()"
| "recycle_loop e resume (Suc n) = do {
     sending \<leftarrow> gets c_sending;
     case sending of
       [] \<Rightarrow> ret ()
     | f # fs \<Rightarrow>
         if of_bytes f \<noteq> [] then ret ()
         else do {
           modify (\<lambda>c. c\<lparr>c_sending := fs\<rparr>);
           default_frame_handler e resume f;
           recycle_loop e resume n } }"

definition recycle_sent_frames :: "env \<Rightarrow> rc M \<Rightarrow> unit M" where
  "recycle_sent_frames e resume = do {
     n \<leftarrow> gets (\<lambda>c. length (c_sending c));
     recycle_loop e resume n }"

text \<open>
  \<open>ngx_anytls_mux_drain_closing_streams\<close>: the successor is read before the body, as in
  the source; an element that has been taken from the queue is linked to itself.
\<close>

definition next_in :: "sptr \<Rightarrow> sptr list \<Rightarrow> sptr option" where
  "next_in st q = (case dropWhile (\<lambda>x. x \<noteq> st) q of
     [] \<Rightarrow> Some st | [_] \<Rightarrow> None | _ # y # _ \<Rightarrow> Some y)"

fun drain_closing_loop :: "env \<Rightarrow> rc M \<Rightarrow> nat \<Rightarrow> sptr option \<Rightarrow> unit M" where
  "drain_closing_loop e resume 0 cur = ret ()"
| "drain_closing_loop e resume (Suc n) cur =
     (case cur of
        None \<Rightarrow> ret ()
      | Some st \<Rightarrow> do {
          nxt \<leftarrow> gets (\<lambda>c. next_in st (c_closing_streams c));
          queued \<leftarrow> sget st st_queued_frames;
          only_if (queued = 0) (do {
            modify (\<lambda>c. c\<lparr>c_closing_streams := remove1 st (c_closing_streams c)\<rparr>);
            upd_stream st (\<lambda>s. s\<lparr>st_closing := False\<rparr>);
            stream_close e resume st });
          drain_closing_loop e resume n nxt })"

definition mux_drain_closing_streams :: "env \<Rightarrow> rc M \<Rightarrow> unit M" where
  "mux_drain_closing_streams e resume = do {
     q \<leftarrow> gets c_closing_streams;
     drain_closing_loop e resume (length q) (case q of [] \<Rightarrow> None | st # _ \<Rightarrow> Some st) }"

text \<open>What a write of \<open>n\<close> bytes leaves of the frames.\<close>

fun consume :: "nat \<Rightarrow> out_frame list \<Rightarrow> out_frame list" where
  "consume n [] = []"
| "consume n (f # fs) = f\<lparr>of_bytes := drop n (of_bytes f)\<rparr> # consume (n - length (of_bytes f)) fs"

definition wire_bytes :: "out_frame list \<Rightarrow> buffer" where
  "wire_bytes fs = concat (map of_bytes fs)"

text \<open>
  \<open>ngx_anytls_flush\<close> in its two parts: filling \<open>sending\<close>, and writing it.
\<close>

definition fill_sending :: "conn \<Rightarrow> conn" where
  "fill_sending c =
     (if c_unsent c = Unsent_null
      then c\<lparr>c_sending := c_sending c @ c_control_out c @ c_data_out c,
             c_unsent := (if c_control_out c @ c_data_out c = [] then Unsent_null else Unsent_chain),
             c_control_out := [], c_data_out := []\<rparr>
      else c)"

definition flush_fill :: "nat \<Rightarrow> unit M" where
  "flush_fill budget = do {
     schedule_stream_frames budget;
     modify fill_sending }"

definition write_chain :: "env \<Rightarrow> bool M" where
  "write_chain e = do {
     bs \<leftarrow> gets (\<lambda>c. wire_bytes (c_sending c));
     sent \<leftarrow> ask (\<lambda>t. e_chain e t (length bs));
     case sent of
       None \<Rightarrow> do { modify (\<lambda>c. c\<lparr>c_unsent := Unsent_error\<rparr>); ret False }
     | Some k \<Rightarrow> do {
         perform (Eff_client_write (take k bs));
         modify (\<lambda>c. c\<lparr>c_sending := consume k (c_sending c),
                       c_unsent := (if k < length bs then Unsent_chain else Unsent_null)\<rparr>);
         ret True } }"

definition flush_write :: "env \<Rightarrow> rc M \<Rightarrow> rc M" where
  "flush_write e resume = do {
     written \<leftarrow> write_chain e;
     if \<not> written then ret NGX_ERROR
     else do {
       recycle_sent_frames e resume;
       pressure \<leftarrow> gets c_output_pressure;
       only_if (\<not> pressure) (mux_on_client_mux_result e resume False);
       unsent \<leftarrow> gets c_unsent;
       if unsent \<noteq> Unsent_null then do {
         r \<leftarrow> ask (e_rc e);
         if r \<noteq> NGX_OK then ret NGX_ERROR
         else do { arm_write_timer; ret NGX_AGAIN } }
       else do {
         active \<leftarrow> ask (e_flag e);
         r \<leftarrow> (if active then ask (e_rc e) else ret NGX_OK);
         if r \<noteq> NGX_OK then ret NGX_ERROR
         else do {
           mux_drain_closing_streams e resume;
           waiting \<leftarrow> gets (\<lambda>c. c_control_out c \<noteq> [] \<or> c_data_out c \<noteq> [] \<or> c_ready_streams c \<noteq> []);
           (if waiting then client_mux_post_write else disarm_write_timer);
           ret NGX_OK } } } }"

definition flush :: "env \<Rightarrow> rc M \<Rightarrow> nat \<Rightarrow> rc M" where
  "flush e resume budget = do {
     err \<leftarrow> ask (e_flag e);
     if err then ret NGX_ERROR
     else do {
       flush_fill budget;
       unsent \<leftarrow> gets c_unsent;
       case unsent of
         Unsent_null \<Rightarrow> do { disarm_write_timer; ret NGX_OK }
       | Unsent_error \<Rightarrow> ret NGX_ERROR
       | Unsent_chain \<Rightarrow> flush_write e resume } }"

record drain_result =
  dr_pending_delta :: nat
  dr_streams_resumed :: nat
  dr_pressure_on :: bool
  dr_pressure_released :: bool
  dr_can_finalize :: bool

definition drain_can_finalize :: "conn \<Rightarrow> bool" where
  "drain_can_finalize c \<longleftrightarrow>
     c_client_eof c \<and> c_active_streams c = 0 \<and> c_pending_output c = 0 \<and> c_pending_input c = 0
     \<and> c_frames c = 0
     \<and> list_all (\<lambda>st. \<not> st_resolver_pending (c_mem c st) \<and> st_uot_pending (c_mem c st) = [])
         (c_stream_list c)"

text \<open>\<open>ngx_anytls_client_mux_drain\<close>; \<open>want\<close> tells whether the caller passes a result.\<close>

definition client_mux_drain :: "env \<Rightarrow> rc M \<Rightarrow> nat \<Rightarrow> bool \<Rightarrow> (rc \<times> drain_result option) M" where
  "client_mux_drain e resume budget want = do {
     was_on \<leftarrow> gets c_output_pressure;
     modify (\<lambda>c. c\<lparr>c_resumed_streams := 0\<rparr>);
     prev \<leftarrow> gets c_pending_output;
     mux_drain_closing_streams e resume;
     r \<leftarrow> flush e resume (if budget = 0 then NGX_ANYTLS_CLIENT_DRAIN_FRAMES else budget);
     on \<leftarrow> gets c_output_pressure;
     (if r = NGX_AGAIN then
        only_if (\<not> on) (do {
          modify (\<lambda>c. c\<lparr>c_output_pressure := True\<rparr>);
          mux_suspend_reads e })
      else if r = NGX_OK then only_if on (modify (\<lambda>c. c\<lparr>c_output_pressure := False\<rparr>))
      else ret ());
     if \<not> want then ret (r, None)
     else do {
       res \<leftarrow> gets (\<lambda>c.
         \<lparr>dr_pending_delta = (if prev \<ge> c_pending_output c then prev - c_pending_output c else prev),
          dr_streams_resumed = c_resumed_streams c,
          dr_pressure_on = c_output_pressure c,
          dr_pressure_released = (was_on \<and> \<not> c_output_pressure c),
          dr_can_finalize = drain_can_finalize c\<rparr>);
       mux_on_client_mux_result e resume (dr_pressure_released res);
       ret (r, Some res) } }"

definition client_mux_on_writable :: "env \<Rightarrow> rc M \<Rightarrow> unit M" where
  "client_mux_on_writable e resume = do { _ \<leftarrow> client_mux_drain e resume 0 True; ret () }"

section \<open>The end of a connection\<close>

fun close_all :: "env \<Rightarrow> rc M \<Rightarrow> sptr list \<Rightarrow> unit M" where
  "close_all e resume [] = ret ()"
| "close_all e resume (st # sts) = do {
     stream_mark_closed_by_protocol st;
     stream_close e resume st;
     close_all e resume sts }"

text \<open>
  \<open>ngx_anytls_finalize_rc\<close>. The loop reads the successor before it closes a stream; with
  \<open>closing\<close> set a close removes that stream only, so the loop visits the list as it was.
\<close>

definition close_connection :: "env \<Rightarrow> rc M \<Rightarrow> unit M" where
  "close_connection e resume = do {
     now \<leftarrow> ask (e_now e);
     modify (\<lambda>c. let (us, tr) = state_finalize now (c_upstream_states c) (c_fallback_state c)
                 in c\<lparr>c_upstream_states := us, c_fallback_state := tr\<rparr>);
     disarm_write_timer;
     sts \<leftarrow> gets c_stream_list;
     close_all e resume sts;
     modify (\<lambda>c. c\<lparr>c_free_read_bufs := [], c_free_read_bufs_large := [], c_free_pending_bufs := []\<rparr>);
     fb \<leftarrow> gets c_fallback;
     only_if fb (do {
       perform Eff_close_fallback;
       modify (\<lambda>c. c\<lparr>c_fallback := False\<rparr>) }) }"

definition finalize_rc :: "env \<Rightarrow> rc M \<Rightarrow> nat \<Rightarrow> unit M" where
  "finalize_rc e resume code = do {
     closing \<leftarrow> gets c_closing;
     if closing then ret ()
     else do {
       modify (\<lambda>c. c\<lparr>c_closing := True\<rparr>);
       close_connection e resume;
       perform (Eff_finalize_session code) } }"

abbreviation (input) "NGX_STREAM_OK \<equiv> 200 :: nat"
abbreviation (input) "NGX_STREAM_BAD_GATEWAY \<equiv> 502 :: nat"

definition finalize :: "env \<Rightarrow> rc M \<Rightarrow> unit M" where
  "finalize e resume = finalize_rc e resume NGX_STREAM_OK"

definition close_if_idle :: "env \<Rightarrow> rc M \<Rightarrow> unit M" where
  "close_if_idle e resume = do {
     idle \<leftarrow> gets (\<lambda>c. \<not> c_closing c \<and> c_active_streams c = 0 \<and> c_pending_output c = 0
       \<and> c_pending_input c = 0 \<and> c_frames c = 0);
     only_if idle (finalize e resume) }"

definition write_timeout_handler :: "env \<Rightarrow> rc M \<Rightarrow> unit M" where
  "write_timeout_handler e resume = do {
     closing \<leftarrow> gets c_closing;
     only_if (\<not> closing) (finalize e resume) }"

definition stream_send_fin_and_close :: "env \<Rightarrow> rc M \<Rightarrow> sptr \<Rightarrow> rc M" where
  "stream_send_fin_and_close e resume st = do {
     stream_mark_closed_by_protocol st;
     upd_stream st (\<lambda>s. s\<lparr>st_out_closed := True\<rparr>);
     s \<leftarrow> sget st (\<lambda>s. s);
     r \<leftarrow> (if \<not> st_fin_queued s \<and> \<not> st_fin_sent s
           then client_mux_queue_frame e (Some st) NGX_ANYTLS_CMD_FIN (st_id s) []
           else ret NGX_OK);
     if r \<noteq> NGX_OK then ret r
     else do { stream_close e resume st; ret NGX_OK } }"

section \<open>Orders on the output side\<close>

text \<open>
  An order that is respected by the four steps that move frames (scheduling one frame,
  filling \<open>sending\<close>, a write, and taking a sent frame off \<open>sending\<close>) is respected by
  flushing, by a drain cycle and by the end of the connection.
\<close>

locale mux_order = close_order +
  assumes R_round: "c_ready_streams c \<noteq> [] \<Longrightarrow> R c (snd (run_state schedule_round c))"
    and R_fill: "R c (fill_sending c)"
    and R_write: "R c (snd (run_state (write_chain e) c))"
    and R_done: "c_sending c = f # fs \<Longrightarrow> of_bytes f = []
      \<Longrightarrow> R c (snd (run_state (frame_done f) (c\<lparr>c_sending := fs\<rparr>)))"
    and seen_mux: "\<not> seen Eff_post_client_write" "\<not> seen Eff_close_fallback"
begin

lemma ok_timers: "ok arm_write_timer" "ok disarm_write_timer" "ok client_mux_post_write"
  unfolding client_mux_post_write_def arm_write_timer_def disarm_write_timer_def
  by (intro ok_rules ok_view; simp add: out_view_def seen_close seen_mux)+

lemma ok_schedule_loop: "ok (schedule_loop n goes frames bytes)"
proof (induction n arbitrary: frames bytes)
  case (Suc n)
  have "R c (snd (run_state (do { r \<leftarrow> schedule_round;
      schedule_loop n goes (frames + fst r) (bytes + snd r) }) c))" if "c_ready_streams c \<noteq> []" for c
    using R_trans [OF R_round [OF that]] ok_run [OF Suc.IH]
    by (auto split: prod.split)
  then show ?case
    by (auto simp: state_io_rel_def R_refl)
qed (simp add: ok_ret)

lemma ok_flush_fill: "ok (flush_fill n)"
  unfolding flush_fill_def schedule_stream_frames_def Let_def
  by (intro ok_rules ok_schedule_loop ok_modify R_fill)

lemma ok_recycle: "ok resume \<Longrightarrow> ok (recycle_loop e resume n)"
proof (induction n)
  case (Suc n)
  have rest: "ok (case of_stream f of None \<Rightarrow> ret () | Some st \<Rightarrow> do {
      s \<leftarrow> sget st (\<lambda>s. s);
      only_if (st_state s = STREAM_CLOSING \<and> st_queued_frames s = 0) (stream_close e resume st) })" for f
    by (intro ok_rules ok_stream_close Suc.prems)
  have "R c (snd (run_state (do { modify (\<lambda>c. c\<lparr>c_sending := fs\<rparr>); default_frame_handler e resume f;
      recycle_loop e resume n }) c))" if "c_sending c = f # fs" "of_bytes f = []" for c f fs
  proof -
    define c1 where "c1 = snd (run_state (frame_done f) (c\<lparr>c_sending := fs\<rparr>))"
    have "R c c1" unfolding c1_def by (rule R_done [OF that])
    moreover have "R c1 (snd (run_state (do { (case of_stream f of None \<Rightarrow> ret () | Some st \<Rightarrow> do {
        s \<leftarrow> sget st (\<lambda>s. s);
        only_if (st_state s = STREAM_CLOSING \<and> st_queued_frames s = 0) (stream_close e resume st) });
        recycle_loop e resume n }) c1))"
      by (intro ok_run ok_bind rest Suc.IH Suc.prems)
    ultimately show ?thesis
      unfolding default_frame_handler_def c1_def
      by (auto simp del: run_modify simp: run_modify [of "\<lambda>c. c\<lparr>c_sending := fs\<rparr>"]
          intro: R_trans split: prod.splits)
  qed
  then show ?case
    by (auto simp: state_io_rel_def R_refl split: list.split)
qed (simp add: ok_ret)

lemma ok_drain_closing_loop: "ok resume \<Longrightarrow> ok (drain_closing_loop e resume n cur)"
proof (induction n arbitrary: cur)
  case (Suc n)
  show ?case
    by (subst drain_closing_loop.simps)
      (intro ok_rules ok_view ok_stream_close Suc; simp add: out_view_def)
qed (simp add: ok_ret)

lemma ok_drain_closing: "ok resume \<Longrightarrow> ok (mux_drain_closing_streams e resume)"
  unfolding mux_drain_closing_streams_def by (intro ok_rules ok_drain_closing_loop)

lemma ok_process_blocked_loop: "ok resume \<Longrightarrow> ok (process_blocked_loop e resume sts n)"
proof (induction sts arbitrary: n)
  case (Cons st sts)
  show ?case
    by (subst process_blocked_loop.simps) (intro ok_rules ok_mux_closing ok_stream_close Cons)
qed (simp add: ok_ret)

lemma ok_on_client_mux_result: "ok resume \<Longrightarrow> ok (mux_on_client_mux_result e resume b)"
  unfolding mux_on_client_mux_result_def mux_resume_reads_def mux_process_blocked_def add_resumed_def
  by (intro ok_rules ok_view ok_process_blocked_loop; simp add: out_view_def)

lemma ok_block_read: "ok (upstream_block_read e st)"
  unfolding upstream_block_read_def by (intro ok_rules ok_view; simp add: out_view_def)

lemma ok_suspend_reads_loop: "ok (suspend_reads_loop e sts)"
proof (induction sts)
  case (Cons st sts)
  show ?case
    by (subst suspend_reads_loop.simps)
      (intro ok_rules ok_view ok_block_read Cons; simp add: out_view_def)
qed (simp add: ok_ret)

lemma ok_suspend_reads: "ok (mux_suspend_reads e)"
  unfolding mux_suspend_reads_def
  by (intro ok_rules ok_view ok_suspend_reads_loop; simp add: out_view_def)

lemma ok_write_chain: "ok (write_chain e)"
  by (simp add: state_io_rel_def R_write)

lemma ok_flush: "ok resume \<Longrightarrow> ok (flush e resume n)"
  unfolding flush_def flush_write_def recycle_sent_frames_def
  by (intro ok_rules; (intro ok_flush_fill)?; (split unsent.split, intro conjI impI)?;
      (intro ok_rules ok_timers ok_recycle ok_on_client_mux_result ok_drain_closing ok_write_chain)?)

lemma ok_drain: "ok resume \<Longrightarrow> ok (client_mux_drain e resume n want)"
  unfolding client_mux_drain_def
  by (intro ok_rules ok_view ok_drain_closing ok_flush ok_suspend_reads ok_on_client_mux_result;
      simp add: out_view_def)

lemma ok_close_all: "ok resume \<Longrightarrow> ok (close_all e resume sts)"
proof (induction sts)
  case (Cons st sts)
  show ?case
    by (subst close_all.simps) (intro ok_rules ok_stream_small ok_stream_close Cons)
qed (simp add: ok_ret)

lemma ok_close_connection: "ok resume \<Longrightarrow> ok (close_connection e resume)"
  unfolding close_connection_def
  by (intro ok_rules ok_view ok_timers ok_close_all; simp add: out_view_def seen_mux split: prod.split)

end

text \<open>An order that does not look at the end of the session, either.\<close>

locale final_order = mux_order +
  assumes R_closing: "R c (c\<lparr>c_closing := True\<rparr>)"
    and seen_finalize: "\<not> seen (Eff_finalize_session n)"
begin

lemma ok_finalize: "ok resume \<Longrightarrow> ok (finalize_rc e resume code)"
  unfolding finalize_rc_def
  by (intro ok_rules ok_bind [OF ok_modify [OF R_closing]] ok_close_connection; simp add: seen_finalize)

end

end
