(* ===== verification/Upstream.thy ===== *)
theory Upstream
  imports Client_Mux
begin

text \<open>
  Streams towards their target: resolution of the target address
  (\<open>src/src/ngx_anytls_resolver.c\<close>), connecting, and the queue of client bytes a target has
  not taken yet (\<open>src/src/ngx_anytls_upstream.c\<close>).

  \<open>max_bytes\<close> is \<open>None\<close> for \<open>NGX_ANYTLS_UPSTREAM_SEND_UNLIMITED\<close>. The resolver is
  asked with \<open>ngx_resolve_name\<close>; its handler runs as an event of its own.
\<close>

abbreviation (input) "NGX_ANYTLS_PENDING_WRITE_CHAIN_LIMIT \<equiv> 64 :: nat"

section \<open>Event calls\<close>

definition arm_write :: "env \<Rightarrow> rc M" where
  "arm_write e = ask (e_rc e)"

definition disarm_write :: "env \<Rightarrow> rc M" where
  "disarm_write e = do {
     active \<leftarrow> ask (e_flag e);
     if active then ask (e_rc e) else ret NGX_OK }"

text \<open>
  \<open>ngx_anytls_transport_read\<close> with room for \<open>sz\<close> bytes. It calls the \<open>recv\<close> of the
  connection, \<open>ngx_udp_recv\<close> for a UDP socket; the value 0 is \<open>Recv_eof\<close>: the end of a
  stream, or an empty datagram.
\<close>

definition recv_upto :: "nat \<Rightarrow> recv \<Rightarrow> recv" where
  "recv_upto sz r =
     (case r of
        Recv_bytes bs \<Rightarrow> if take sz bs = [] then Recv_eof else Recv_bytes (take sz bs)
      | r \<Rightarrow> r)"

definition transport_read :: "env \<Rightarrow> nat \<Rightarrow> recv M" where
  "transport_read e sz = ask (\<lambda>t. recv_upto sz (e_recv e t sz))"

definition transport_read_udp :: "env \<Rightarrow> nat \<Rightarrow> recv M" where
  "transport_read_udp e sz = ask (\<lambda>t. recv_upto sz (e_udp_recv e t sz))"

definition add_bytes_sent :: "sptr \<Rightarrow> nat \<Rightarrow> unit M" where
  "add_bytes_sent st n = do {
     states \<leftarrow> gets c_upstream_states;
     upd_stream st (\<lambda>s. s\<lparr>st_upstream_state := state_add_bytes_sent states (st_upstream_state s) (int n)\<rparr>) }"

section \<open>Resolving\<close>

text \<open>
  Both resolution functions fill in the socket address of their argument; the result is the
  address after the call.
\<close>

definition resolve_sync :: "env \<Rightarrow> sptr \<Rightarrow> addr \<Rightarrow> (rc \<times> addr) M" where
  "resolve_sync e st a = do {
     pool \<leftarrow> stream_pool e st;
     if \<not> pool then ret (NGX_ERROR, a)
     else do {
       ok \<leftarrow> ask (e_alloc e);
       addrs \<leftarrow> ask (\<lambda>t. addr_to_url (e_dec e) (e_url e t) ok a);
       case addrs of
         None \<Rightarrow> ret (NGX_ERROR, a)
       | Some sas \<Rightarrow> ret (case sas of [] \<Rightarrow> (NGX_ERROR, a)
                          | sa # _ \<Rightarrow> (NGX_OK, a\<lparr>a_sockaddr := Some sa\<rparr>)) } }"

definition resolve_addr :: "env \<Rightarrow> sptr \<Rightarrow> resolve_target \<Rightarrow> addr \<Rightarrow> (rc \<times> addr) M" where
  "resolve_addr e st target a =
     (if a_sockaddr a \<noteq> None then ret (NGX_OK, a)
      else if a_host a = [] \<or> length (a_host a) > 255 then ret (NGX_ERROR, a)
      else do {
        resolver \<leftarrow> gets (\<lambda>c. cf_resolver (c_conf c));
        pending \<leftarrow> sget st st_resolver_pending;
        if \<not> resolver then resolve_sync e st a
        else if pending then ret (NGX_AGAIN, a)
        else do {
          start \<leftarrow> ask (e_resolve_start e);
          case start of
            Resolve_null \<Rightarrow> ret (NGX_ERROR, a)
          | Resolve_none \<Rightarrow> resolve_sync e st a
          | Resolve_ctx \<Rightarrow> do {
              pool \<leftarrow> stream_pool e st;
              ok \<leftarrow> (if pool then ask (e_alloc e) else ret False);
              if \<not> ok then do { perform (Eff_resolve_done st); ret (NGX_ERROR, a) }
              else do {
                upd_stream st (\<lambda>s. s\<lparr>st_resolver_domain := a_host a, st_resolver_port := a_port a,
                  st_resolver_target := target, st_resolver_ctx := True, st_resolver_pending := True\<rparr>);
                perform (Eff_resolve_start st (a_host a));
                r \<leftarrow> ask (e_rc e);
                if r \<noteq> NGX_OK then do { resolver_cancel st; ret (NGX_ERROR, a) }
                else ret (NGX_AGAIN, a) } } } })"

section \<open>Sending what is queued\<close>

text \<open>The bytes of a queue entry that are not sent, and those of a queue.\<close>

definition p_left :: "pending \<Rightarrow> buffer" where
  "p_left p = drop (p_sent p) (p_data p)"

text \<open>
  The buffers of one write: entries with bytes left, at most \<open>n\<close> of them, cut at the byte
  budget.
\<close>

fun gather :: "nat \<Rightarrow> nat option \<Rightarrow> pending list \<Rightarrow> buffer list" where
  "gather n remaining [] = []"
| "gather n remaining (p # ps) =
     (if n = 0 then []
      else if p_left p = [] then gather n remaining ps
      else case remaining of
             None \<Rightarrow> p_left p # gather (n - 1) None ps
           | Some r \<Rightarrow>
               let seg = take r (p_left p) in
               seg # (if r - length seg = 0 then [] else gather (n - 1) (Some (r - length seg)) ps))"

text \<open>
  The loop that marks \<open>sent\<close> bytes as sent. \<open>Some rc\<close> is a return from the function.
  Every round takes a byte or an entry, so \<open>sent\<close> and the number of entries bound the rounds.
\<close>

fun mark_sent :: "env \<Rightarrow> rc M \<Rightarrow> sptr \<Rightarrow> nat \<Rightarrow> nat \<Rightarrow> rc option M" where
  "mark_sent e resume st 0 sent = ret None"
| "mark_sent e resume st (Suc n) sent = do {
     ps \<leftarrow> sget st st_pending_in;
     case ps of
       [] \<Rightarrow> ret None
     | p # ps' \<Rightarrow>
         if sent = 0 then ret None
         else do {
           let sz = min (length (p_data p) - p_sent p) sent;
           let p1 = p\<lparr>p_sent := p_sent p + sz\<rparr>;
           upd_stream st (\<lambda>s. s\<lparr>st_pending_in := p1 # ps'\<rparr>);
           add_bytes_sent st sz;
           if p_sent p1 \<noteq> length (p_data p1) then do { r \<leftarrow> arm_write e; ret (Some r) }
           else do {
             upd_stream st (\<lambda>s. s\<lparr>st_pending_in := ps',
               st_pending_in_bytes := st_pending_in_bytes s - length (p_data p1)\<rparr>);
             modify (\<lambda>c. c\<lparr>c_pending_input := c_pending_input c - length (p_data p1)\<rparr>);
             upstream_free_pending st p1;
             r \<leftarrow> upstream_update_input_state resume st;
             if r \<noteq> NGX_OK then ret (Some NGX_ERROR)
             else mark_sent e resume st n (sent - sz) } } }"

definition sub_budget :: "nat option \<Rightarrow> nat \<Rightarrow> nat option" where
  "sub_budget max_bytes n = map_option (\<lambda>m. m - n) max_bytes"

text \<open>
  One round of the outer loop: \<open>Inl rc\<close> returns, \<open>Inr (go, max_bytes, tot)\<close> ends the
  round.
\<close>

definition send_round ::
  "env \<Rightarrow> rc M \<Rightarrow> sptr \<Rightarrow> nat option \<Rightarrow> nat \<Rightarrow> ((rc \<times> nat) + (bool \<times> nat option \<times> nat)) M" where
  "send_round e resume st max_bytes tot =
     (if max_bytes = Some 0 then ret (Inl (NGX_OK, tot))
      else do {
        segs \<leftarrow> sget st (\<lambda>s. gather NGX_ANYTLS_PENDING_WRITE_CHAIN_LIMIT max_bytes (st_pending_in s));
        if segs = [] then ret (Inr (False, max_bytes, tot))
        else do {
          let bs = concat segs;
          k \<leftarrow> ask (\<lambda>t. e_chain e t (length bs));
          case k of
            None \<Rightarrow> ret (Inl (NGX_ERROR, tot))
          | Some k0 \<Rightarrow> do {
              let sent = min k0 (length bs);
              perform (Eff_upstream_write st (take sent bs));
              if sent = 0 then do { r \<leftarrow> arm_write e; ret (Inl (r, tot)) }
              else do {
                n \<leftarrow> sget st (\<lambda>s. length (st_pending_in s));
                early \<leftarrow> mark_sent e resume st (sent + n) sent;
                case early of
                  Some r \<Rightarrow> ret (Inl (r, tot + sent))
                | None \<Rightarrow> do {
                    let max' = sub_budget max_bytes sent;
                    ret (Inr (\<not> (sent < length bs \<or> max' = Some 0), max', tot + sent)) } } } } })"

fun send_loop ::
  "env \<Rightarrow> rc M \<Rightarrow> sptr \<Rightarrow> nat \<Rightarrow> nat option \<Rightarrow> nat \<Rightarrow> ((rc \<times> nat) + nat) M" where
  "send_loop e resume st 0 max_bytes tot = ret (Inr tot)"
| "send_loop e resume st (Suc n) max_bytes tot = do {
     empty \<leftarrow> sget st (\<lambda>s. st_pending_in s = []);
     if empty then ret (Inr tot)
     else do {
       r \<leftarrow> send_round e resume st max_bytes tot;
       case r of
         Inl x \<Rightarrow> ret (Inl x)
       | Inr (go, max', tot') \<Rightarrow>
           if go then send_loop e resume st n max' tot' else ret (Inr tot') } }"

text \<open>
  \<open>ngx_anytls_upstream_send_pending\<close>: the return code and the value of \<open>*sent_out\<close>.
  A round sends at least one byte, and bytes only come from the queue or from what the
  client handler still holds, so their number bounds the rounds.
\<close>

definition send_fuel :: "conn \<Rightarrow> sptr \<Rightarrow> nat" where
  "send_fuel c st = Suc (length (concat (map p_left (st_pending_in (c_mem c st)))) + length (c_remnant c))"

definition upstream_send_pending :: "env \<Rightarrow> rc M \<Rightarrow> sptr \<Rightarrow> nat option \<Rightarrow> (rc \<times> nat) M" where
  "upstream_send_pending e resume st max_bytes = do {
     s \<leftarrow> sget st (\<lambda>s. s);
     if \<not> st_upstream s \<or> (st_state s \<noteq> STREAM_CONNECTED \<and> st_state s \<noteq> STREAM_HALF_CLOSED)
     then ret (NGX_OK, 0)
     else do {
       fuel \<leftarrow> gets (\<lambda>c. send_fuel c st);
       r \<leftarrow> send_loop e resume st fuel max_bytes 0;
       case r of
         Inl x \<Rightarrow> ret x
       | Inr tot \<Rightarrow> do {
           left \<leftarrow> sget st (\<lambda>s. st_pending_in s \<noteq> []);
           if left then do { r \<leftarrow> arm_write e; ret (r, tot) }
           else do {
             s \<leftarrow> sget st (\<lambda>s. s);
             only_if (st_pending_shutdown s \<and> st_upstream s) (do {
               upd_stream st (\<lambda>s. s\<lparr>st_pending_shutdown := False\<rparr>);
               perform (Eff_shutdown_write st) });
             r \<leftarrow> disarm_write e;
             if r \<noteq> NGX_OK then ret (NGX_ERROR, tot)
             else do { r' \<leftarrow> resume; ret (r', tot) } } } } }"

section \<open>Queueing client bytes\<close>

text \<open>
  Direct sends while nothing is queued: the bytes that are left, or an error. Each round
  sends at least one byte.
\<close>

fun direct_send :: "env \<Rightarrow> sptr \<Rightarrow> nat \<Rightarrow> buffer \<Rightarrow> buffer option M" where
  "direct_send e st 0 data = ret (Some data)"
| "direct_send e st (Suc n) data =
     (if data = [] then ret (Some [])
      else do {
        r \<leftarrow> ask (\<lambda>t. e_send e t (length data));
        case r of
          IO_error \<Rightarrow> ret None
        | IO_again \<Rightarrow> ret (Some data)
        | IO_bytes k \<Rightarrow>
            if k = 0 then ret None
            else do {
              perform (Eff_upstream_write st (take k data));
              add_bytes_sent st (min k (length data));
              direct_send e st n (drop k data) } })"

definition upstream_enqueue :: "env \<Rightarrow> sptr \<Rightarrow> buffer \<Rightarrow> rc M" where
  "upstream_enqueue e st data = do {
     cached \<leftarrow> sget st (\<lambda>s. st_free_pending_in s > 0);
     ok \<leftarrow> (if cached then do {
              upd_stream st (\<lambda>s. s\<lparr>st_free_pending_in := st_free_pending_in s - 1,
                                    st_free_pending_in_count := st_free_pending_in_count s - 1\<rparr>);
              ret True }
            else do {
              pool \<leftarrow> stream_pool e st;
              if \<not> pool then ret False else ask (e_alloc e) });
     if \<not> ok then ret NGX_ERROR
     else do {
       buf \<leftarrow> upstream_alloc_pending_buf e (length data);
       case buf of
         None \<Rightarrow> do {
           upd_stream st (\<lambda>s. s\<lparr>st_free_pending_in := Suc (st_free_pending_in s)\<rparr>);
           ret NGX_ERROR }
       | Some cap \<Rightarrow> do {
           upd_stream st (\<lambda>s. s\<lparr>
             st_pending_in := st_pending_in s @ [\<lparr>p_data = data, p_sent = 0, p_cap = cap\<rparr>],
             st_pending_in_bytes := st_pending_in_bytes s + length data\<rparr>);
           modify (\<lambda>c. c\<lparr>c_pending_input := c_pending_input c + length data\<rparr>);
           up \<leftarrow> sget st st_upstream;
           only_if up (perform (Eff_post_upstream_write st));
           bytes \<leftarrow> sget st st_pending_in_bytes;
           limit \<leftarrow> gets (\<lambda>c. cf_max_pending_input (c_conf c));
           all \<leftarrow> gets c_pending_input;
           if bytes > limit then upstream_block_input e st
           else if all > limit then do {
             r \<leftarrow> client_input_pause e;
             ret (if r \<noteq> NGX_OK then NGX_ERROR else NGX_OK) }
           else ret NGX_OK } } }"

text \<open>The block of \<open>ngx_anytls_upstream_queue\<close> for an empty queue, with the queueing of what is left.\<close>

definition upstream_direct :: "env \<Rightarrow> sptr \<Rightarrow> buffer \<Rightarrow> rc M" where
  "upstream_direct e st data = do {
     left \<leftarrow> direct_send e st (length data) data;
     case left of
       None \<Rightarrow> ret NGX_ERROR
     | Some rest \<Rightarrow>
         if rest = [] then do {
           r \<leftarrow> disarm_write e;
           ret (if r \<noteq> NGX_OK then NGX_ERROR else NGX_OK) }
         else do {
           r \<leftarrow> arm_write e;
           if r \<noteq> NGX_OK then ret NGX_ERROR else upstream_enqueue e st rest } }"

definition upstream_queue :: "env \<Rightarrow> rc M \<Rightarrow> sptr \<Rightarrow> buffer \<Rightarrow> rc M" where
  "upstream_queue e resume st data =
     (if data = [] then ret NGX_OK
      else do {
        s \<leftarrow> sget st (\<lambda>s. s);
        if \<not> (st_upstream s \<and> st_state s = STREAM_CONNECTED) then upstream_enqueue e st data
        else do {
          ready \<leftarrow> (if st_pending_in s \<noteq> [] then ask (e_flag e) else ret False);
          r \<leftarrow> (if ready then do { x \<leftarrow> upstream_send_pending e resume st None; ret (fst x) }
                else ret NGX_OK);
          if r = NGX_ERROR then ret NGX_ERROR
          else do {
            empty \<leftarrow> sget st (\<lambda>s. st_pending_in s = []);
            if empty then upstream_direct e st data else upstream_enqueue e st data } } })"

section \<open>Connecting\<close>

text \<open>
  \<open>ngx_anytls_upstream_state_open\<close> and \<open>ngx_anytls_upstream_state_on_connect\<close> on the
  tracker of a stream.
\<close>

definition stream_state_open :: "env \<Rightarrow> sptr \<Rightarrow> rc M" where
  "stream_state_open e st = do {
     now \<leftarrow> ask (e_now e);
     array \<leftarrow> ask (e_alloc e);
     push \<leftarrow> ask (e_alloc e);
     str \<leftarrow> ask (e_alloc e);
     data \<leftarrow> ask (e_alloc e);
     states \<leftarrow> gets c_upstream_states;
     s \<leftarrow> sget st (\<lambda>s. s);
     let (r, states', tr') =
       state_open now \<lparr>oa_array = array, oa_push = push, oa_str = str, oa_data = data\<rparr> states
         (st_upstream_state s) (st_upstream_name s);
     modify (\<lambda>c. c\<lparr>c_upstream_states := states'\<rparr>);
     upd_stream st (\<lambda>s. s\<lparr>st_upstream_state := tr'\<rparr>);
     ret r }"

definition stream_state_on_connect :: "env \<Rightarrow> sptr \<Rightarrow> unit M" where
  "stream_state_on_connect e st = do {
     now \<leftarrow> ask (e_now e);
     tr \<leftarrow> sget st st_upstream_state;
     modify (\<lambda>c. c\<lparr>c_upstream_states := state_on_connect now (c_upstream_states c) tr\<rparr>) }"

text \<open>
  The text kept in \<open>st->upstream_name\<close>: what \<open>ngx_sock_ntop\<close> writes, or host and port
  cut at the size of the buffer (\<open>NGX_SOCKADDR_STRLEN\<close>, 113 with Unix sockets on Linux).
\<close>

definition peer_name :: "env \<Rightarrow> sockaddr \<Rightarrow> buffer \<Rightarrow> 16 word \<Rightarrow> buffer" where
  "peer_name e sa host port =
     (let name = e_sock_ntop e sa
      in if name = [] then take 113 (host @ [58] @ e_dec e (unat port)) else name)"

definition mux_on_connect_pending :: "sptr \<Rightarrow> unit M" where
  "mux_on_connect_pending st = do {
     p \<leftarrow> sget st st_connect_pending;
     only_if (\<not> p) (do {
       upd_stream st (\<lambda>s. s\<lparr>st_connect_pending := True\<rparr>);
       modify (\<lambda>c. c\<lparr>c_connect_pending := c_connect_pending c @ [st]\<rparr>) }) }"

definition mux_on_connect_ready :: "env \<Rightarrow> rc M \<Rightarrow> sptr \<Rightarrow> rc M" where
  "mux_on_connect_ready e resume st = do {
     mux_cancel_connect st;
     stream_state_on_connect e st;
     upd_stream st (\<lambda>s. s\<lparr>st_state := STREAM_CONNECTED\<rparr>);
     _ \<leftarrow> client_mux_send_synack e st [];
     r \<leftarrow> ask (e_rc e);
     if r \<noteq> NGX_OK then do { stream_close e resume st; ret NGX_ERROR }
     else ret NGX_OK }"

definition upstream_open_resolved :: "env \<Rightarrow> rc M \<Rightarrow> sptr \<Rightarrow> rc M" where
  "upstream_open_resolved e resume st = do {
     target \<leftarrow> sget st st_target;
     case a_sockaddr target of
       None \<Rightarrow> ret NGX_ERROR
     | Some sa \<Rightarrow> do {
         pool \<leftarrow> stream_pool e st;
         ok \<leftarrow> (if pool then ask (e_alloc e) else ret False);
         if \<not> ok then ret NGX_ERROR
         else do {
           upd_stream st (\<lambda>s. s\<lparr>st_upstream_name := peer_name e sa (a_host target) (a_port target)\<rparr>);
           opened \<leftarrow> stream_state_open e st;
           if opened \<noteq> NGX_OK then ret NGX_ERROR
           else do {
             r \<leftarrow> ask (e_connect e);
             if r = NGX_ERROR \<or> r = NGX_BUSY \<or> r = NGX_DECLINED then ret NGX_ERROR
             else do {
               pool \<leftarrow> stream_pool e st;
               if \<not> pool then ret NGX_ERROR
               else do {
                 upd_stream st (\<lambda>s. s\<lparr>st_upstream := True, st_state := STREAM_CONNECTING\<rparr>);
                 if r = NGX_OK then do {
                   ready \<leftarrow> mux_on_connect_ready e resume st;
                   if ready \<noteq> NGX_OK then ret NGX_ERROR
                   else do { x \<leftarrow> upstream_send_pending e resume st None; ret (fst x) } }
                 else do {
                   mux_on_connect_pending st;
                   perform (Eff_arm_timer (Timer_upstream_write st));
                   armed \<leftarrow> arm_write e;
                   ret (if armed \<noteq> NGX_OK then NGX_ERROR else NGX_OK) } } } } } } }"

definition upstream_open :: "env \<Rightarrow> rc M \<Rightarrow> sptr \<Rightarrow> addr \<Rightarrow> rc M" where
  "upstream_open e resume st a = do {
     upd_stream st (\<lambda>s. s\<lparr>st_target := a\<rparr>);
     (r, a') \<leftarrow> resolve_addr e st RESOLVE_TCP a;
     upd_stream st (\<lambda>s. s\<lparr>st_target := a'\<rparr>);
     if r = NGX_AGAIN then do {
       upd_stream st (\<lambda>s. s\<lparr>st_state := STREAM_CONNECTING\<rparr>);
       ret NGX_OK }
     else if r \<noteq> NGX_OK then ret NGX_ERROR
     else upstream_open_resolved e resume st }"

end
