(* ===== verification/Uot.thy ===== *)
theory Uot
  imports Upstream
begin

text \<open>
  UDP over TCP, \<open>src/src/ngx_anytls_uot.c\<close>: reassembly of the client's packets from the
  payload of a stream, the queue of packets whose domain is being resolved, sending and
  receiving datagrams, and the socket and timer of a stream. \<open>st_uot_recv\<close> is the filled
  part of \<open>uot_recv_buf\<close>, from \<open>uot_recv_pos\<close> on \<open>uot_recv_len\<close> bytes.
\<close>

abbreviation (input) "NGX_ANYTLS_UOT_MAX_HEADER \<equiv> 21 :: nat"
abbreviation (input) "UOT_RECV_MAX \<equiv> 65536 :: nat"

section \<open>Addresses\<close>

definition uot_resolve_sync :: "env \<Rightarrow> sptr \<Rightarrow> addr \<Rightarrow> (rc \<times> addr) M" where
  "uot_resolve_sync e st a =
     (if a_sockaddr a \<noteq> None then ret (NGX_OK, a)
      else do {
        pool \<leftarrow> stream_pool e st;
        if \<not> pool then ret (NGX_ERROR, a)
        else do {
          ok \<leftarrow> ask (e_alloc e);
          addrs \<leftarrow> ask (\<lambda>t. addr_to_url (e_dec e) (e_url e t) ok a);
          ret (case addrs of
                 None \<Rightarrow> (NGX_ERROR, a)
               | Some [] \<Rightarrow> (NGX_ERROR, a)
               | Some (sa # _) \<Rightarrow> (NGX_OK, a\<lparr>a_sockaddr := Some sa\<rparr>)) } })"

text \<open>\<open>is_target\<close>: the address is the one in the stream, \<open>addr == &st->target\<close>.\<close>

definition uot_resolve_addr :: "env \<Rightarrow> sptr \<Rightarrow> bool \<Rightarrow> addr \<Rightarrow> (rc \<times> addr) M" where
  "uot_resolve_addr e st is_target a =
     (if a_sockaddr a \<noteq> None then ret (NGX_OK, a)
      else do {
        mode \<leftarrow> sget st st_uot_mode;
        if mode = ADDR_UOT_V2_CONNECT \<and> is_target then resolve_addr e st RESOLVE_UOT_CONNECT a
        else uot_resolve_sync e st a })"

section \<open>Reassembly\<close>

definition uot_grow :: "env \<Rightarrow> sptr \<Rightarrow> nat \<Rightarrow> bool M" where
  "uot_grow e st len = do {
     s \<leftarrow> sget st (\<lambda>s. s);
     let n = length (st_uot_recv s) + len;
     if len \<le> st_uot_recv_size s - length (st_uot_recv s) then ret True
     else do {
       pool \<leftarrow> stream_pool e st;
       ok \<leftarrow> (if pool then ask (e_alloc e) else ret False);
       only_if ok (upd_stream st (\<lambda>s. s\<lparr>st_uot_recv_size := min (n + n div 2) UOT_RECV_MAX,
                                         st_uot_recv_pos := 0\<rparr>));
       ret ok } }"

definition uot_buffer_append :: "env \<Rightarrow> sptr \<Rightarrow> buffer \<Rightarrow> rc M" where
  "uot_buffer_append e st data =
     (if data = [] then ret NGX_OK
      else do {
        have_buf \<leftarrow> sget st st_uot_recv_buf;
        ready \<leftarrow> (if have_buf then ret True
                  else do {
                    upd_stream st (\<lambda>s. s\<lparr>st_uot_recv_size := UOT_RECV_MAX\<rparr>);
                    pool \<leftarrow> stream_pool e st;
                    ok \<leftarrow> (if pool then ask (e_alloc e) else ret False);
                    upd_stream st (\<lambda>s. s\<lparr>st_uot_recv_buf := ok\<rparr>);
                    ret ok });
        if \<not> ready then ret NGX_ERROR
        else do {
          s \<leftarrow> sget st (\<lambda>s. s);
          fits \<leftarrow>
            (if length data \<le> st_uot_recv_size s - (st_uot_recv_pos s + length (st_uot_recv s))
             then ret True
             else do {
               upd_stream st (\<lambda>s. s\<lparr>st_uot_recv_pos := 0\<rparr>);
               if length (st_uot_recv s) + length data > UOT_RECV_MAX then ret False
               else uot_grow e st (length data) });
          if \<not> fits then ret NGX_ERROR
          else do {
            upd_stream st (\<lambda>s. s\<lparr>st_uot_recv := st_uot_recv s @ data\<rparr>);
            ret NGX_OK } } })"

section \<open>Packets that wait for the resolver\<close>

definition uot_pending_matches :: "uot_pending \<Rightarrow> buffer \<Rightarrow> 16 word \<Rightarrow> bool" where
  "uot_pending_matches pkt domain port \<longleftrightarrow> up_domain pkt = domain \<and> up_port pkt = port"

definition uot_enqueue_pending :: "env \<Rightarrow> sptr \<Rightarrow> addr \<Rightarrow> buffer \<Rightarrow> rc M" where
  "uot_enqueue_pending e st a payload =
     (if a_host a = [] \<or> length (a_host a) > 255 \<or> payload = [] then ret NGX_OK
      else do {
        full \<leftarrow> gets (\<lambda>c. st_uot_pending_count (c_mem c st) \<ge> cf_uot_pending_packets (c_conf c)
          \<or> st_uot_pending_bytes (c_mem c st) + length payload > cf_uot_pending_bytes (c_conf c));
        if full then ret NGX_OK
        else do {
          pool \<leftarrow> stream_pool e st;
          pkt \<leftarrow> (if pool then ask (e_alloc e) else ret False);
          data \<leftarrow> (if pkt then ask (e_alloc e) else ret False);
          if \<not> data then ret NGX_ERROR
          else do {
            upd_stream st (\<lambda>s. s\<lparr>
              st_uot_pending := st_uot_pending s
                @ [\<lparr>up_domain = a_host a, up_port = a_port a, up_payload = payload\<rparr>],
              st_uot_pending_count := Suc (st_uot_pending_count s),
              st_uot_pending_bytes := st_uot_pending_bytes s + length payload\<rparr>);
            ret NGX_OK } } })"

definition payload_sum :: "uot_pending list \<Rightarrow> nat" where
  "payload_sum pkts = sum_list (map (\<lambda>p. length (up_payload p)) pkts)"

text \<open>\<open>ngx_anytls_uot_drop_pending_domain\<close>: the loop takes every match off the queue.\<close>

definition drop_domain :: "buffer \<Rightarrow> 16 word \<Rightarrow> stream \<Rightarrow> stream" where
  "drop_domain domain port s =
     (let gone = filter (\<lambda>p. uot_pending_matches p domain port) (st_uot_pending s) in
      s\<lparr>st_uot_pending := filter (\<lambda>p. \<not> uot_pending_matches p domain port) (st_uot_pending s),
        st_uot_pending_count := st_uot_pending_count s - length gone,
        st_uot_pending_bytes := st_uot_pending_bytes s - payload_sum gone\<rparr>)"

definition uot_drop_pending_domain :: "sptr \<Rightarrow> buffer \<Rightarrow> 16 word \<Rightarrow> unit M" where
  "uot_drop_pending_domain st domain port = upd_stream st (drop_domain domain port)"

text \<open>A packet that was sent leaves the queue; \<open>remove1\<close> takes the first one equal to it.\<close>

definition unqueue :: "uot_pending \<Rightarrow> stream \<Rightarrow> stream" where
  "unqueue pkt s = s\<lparr>st_uot_pending := remove1 pkt (st_uot_pending s),
     st_uot_pending_count := st_uot_pending_count s - 1,
     st_uot_pending_bytes := st_uot_pending_bytes s - length (up_payload pkt)\<rparr>"

section \<open>Sockets and timers\<close>

definition uot_log_output_drop :: "env \<Rightarrow> sptr \<Rightarrow> unit M" where
  "uot_log_output_drop e st = do {
     upd_stream st (\<lambda>s. s\<lparr>st_uot_drop_count := Suc (st_uot_drop_count s)\<rparr>);
     now \<leftarrow> ask (e_now e);
     upd_stream st (\<lambda>s.
       if st_uot_drop_log_time s = 0 \<or> now - st_uot_drop_log_time s \<ge> 1000
       then s\<lparr>st_uot_drop_log_time := now, st_uot_drop_count := 0\<rparr> else s) }"

definition uot_arm_idle_timer :: "env \<Rightarrow> sptr \<Rightarrow> unit M" where
  "uot_arm_idle_timer e st = do {
     udp \<leftarrow> sget st st_udp;
     timeout \<leftarrow> gets (\<lambda>c. cf_uot_idle_timeout (c_conf c));
     if \<not> udp \<or> timeout = 0 then ret ()
     else do {
       timer \<leftarrow> sget st st_uot_timer;
       ready \<leftarrow> (if timer then ret True
                 else do {
                   pool \<leftarrow> stream_pool e st;
                   ok \<leftarrow> (if pool then ask (e_alloc e) else ret False);
                   upd_stream st (\<lambda>s. s\<lparr>st_uot_timer := ok\<rparr>);
                   ret ok });
       only_if ready (perform (Eff_arm_timer (Timer_uot st))) } }"

definition transport_open_udp :: "env \<Rightarrow> family \<Rightarrow> bool M" where
  "transport_open_udp e family = do {
     fd \<leftarrow> ask (\<lambda>t. e_udp e t family);
     if \<not> fd then ret False
     else do {
       nonblocking \<leftarrow> ask (e_flag e);
       if \<not> nonblocking then ret False
       else do {
         c \<leftarrow> ask (e_alloc e);
         if \<not> c then ret False
         else do { r \<leftarrow> ask (e_rc e); ret (r = NGX_OK) } } } }"

definition udp_socket :: "env \<Rightarrow> sptr \<Rightarrow> family \<Rightarrow> rc M" where
  "udp_socket e st family = do {
     s \<leftarrow> sget st (\<lambda>s. s);
     if st_udp s \<and> st_udp_family s = Some family then ret NGX_OK
     else do {
       only_if (st_udp s) (do {
         perform (Eff_close_udp st);
         upd_stream st (\<lambda>s. s\<lparr>st_udp := False, st_udp_family := None\<rparr>) });
       pool \<leftarrow> stream_pool e st;
       if \<not> pool then ret NGX_ERROR
       else do {
         c \<leftarrow> transport_open_udp e family;
         if \<not> c then ret NGX_ERROR
         else do {
           upd_stream st (\<lambda>s. s\<lparr>st_udp := True, st_udp_family := Some family\<rparr>);
           uot_arm_idle_timer e st;
           ret NGX_OK } } } }"

definition uot_upstream_state_open :: "env \<Rightarrow> sptr \<Rightarrow> sockaddr \<Rightarrow> addr \<Rightarrow> rc M" where
  "uot_upstream_state_open e st sa a = do {
     s \<leftarrow> sget st (\<lambda>s. s);
     if st_uot_mode s \<noteq> ADDR_UOT_V2_CONNECT then ret NGX_OK
     else if tr_opened (st_upstream_state s) then ret NGX_OK
     else do {
       pool \<leftarrow> stream_pool e st;
       ok \<leftarrow> (if pool then ask (e_alloc e) else ret False);
       if \<not> ok then ret NGX_ERROR
       else do {
         upd_stream st (\<lambda>s. s\<lparr>st_upstream_name := peer_name e sa (a_host a) (a_port a)\<rparr>);
         r \<leftarrow> stream_state_open e st;
         only_if (r = NGX_OK) (stream_state_on_connect e st);
         ret r } } }"

section \<open>Sending\<close>

definition uot_send_resolved :: "env \<Rightarrow> sptr \<Rightarrow> addr \<Rightarrow> buffer \<Rightarrow> rc M" where
  "uot_send_resolved e st a payload =
     (if payload = [] then ret NGX_OK
      else case a_sockaddr a of
             None \<Rightarrow> ret NGX_ERROR
           | Some sa \<Rightarrow> do {
               socket \<leftarrow> udp_socket e st (sa_family sa);
               if socket \<noteq> NGX_OK then ret NGX_ERROR
               else do {
                 opened \<leftarrow> uot_upstream_state_open e st sa a;
                 if opened \<noteq> NGX_OK then ret NGX_ERROR
                 else do {
                   sent \<leftarrow> ask (\<lambda>t. e_sendto e t (length payload));
                   (case sent of
                      None \<Rightarrow> ret ()
                    | Some n \<Rightarrow> do {
                        perform (Eff_sendto st sa payload);
                        mode \<leftarrow> sget st st_uot_mode;
                        only_if (mode = ADDR_UOT_V2_CONNECT) (add_bytes_sent st n) });
                   ret NGX_OK } } })"

fun uot_flush_loop :: "env \<Rightarrow> sptr \<Rightarrow> buffer \<Rightarrow> 16 word \<Rightarrow> sockaddr option \<Rightarrow> uot_pending list \<Rightarrow> unit M" where
  "uot_flush_loop e st domain port sa [] = ret ()"
| "uot_flush_loop e st domain port sa (pkt # pkts) =
     (if \<not> uot_pending_matches pkt domain port then uot_flush_loop e st domain port sa pkts
      else do {
        r \<leftarrow> uot_send_resolved e st
               (addr_zero\<lparr>a_host := up_domain pkt, a_port := up_port pkt, a_sockaddr := sa\<rparr>) (up_payload pkt);
        if r \<noteq> NGX_OK then uot_drop_pending_domain st domain port
        else do {
          upd_stream st (unqueue pkt);
          uot_flush_loop e st domain port sa pkts } })"

definition uot_flush_pending_domain :: "env \<Rightarrow> sptr \<Rightarrow> buffer \<Rightarrow> 16 word \<Rightarrow> sockaddr option \<Rightarrow> rc M" where
  "uot_flush_pending_domain e st domain port sa = do {
     pkts \<leftarrow> sget st st_uot_pending;
     uot_flush_loop e st domain port sa pkts;
     ret NGX_OK }"

text \<open>Every round takes the first packet off the queue, so its length bounds the rounds.\<close>

fun uot_process_loop :: "env \<Rightarrow> sptr \<Rightarrow> nat \<Rightarrow> unit M" where
  "uot_process_loop e st 0 = ret ()"
| "uot_process_loop e st (Suc n) = do {
     s \<leftarrow> sget st (\<lambda>s. s);
     case st_uot_pending s of
       [] \<Rightarrow> ret ()
     | pkt # _ \<Rightarrow>
         if st_resolver_pending s then ret ()
         else do {
           let a = addr_zero\<lparr>a_host := up_domain pkt, a_port := up_port pkt\<rparr>;
           upd_stream st (\<lambda>s. s\<lparr>st_target := a\<rparr>);
           (r, a') \<leftarrow> resolve_addr e st RESOLVE_UOT_PACKET a;
           upd_stream st (\<lambda>s. s\<lparr>st_target := a'\<rparr>);
           if r = NGX_AGAIN then ret ()
           else if r \<noteq> NGX_OK then do {
             uot_drop_pending_domain st (up_domain pkt) (up_port pkt);
             uot_process_loop e st n }
           else do {
             _ \<leftarrow> uot_flush_pending_domain e st (up_domain pkt) (up_port pkt) (a_sockaddr a');
             uot_process_loop e st n } } }"

definition uot_process_pending :: "env \<Rightarrow> sptr \<Rightarrow> rc M" where
  "uot_process_pending e st = do {
     n \<leftarrow> sget st (\<lambda>s. length (st_uot_pending s));
     uot_process_loop e st n;
     ret NGX_OK }"

definition uot_send_domain_packet :: "env \<Rightarrow> sptr \<Rightarrow> addr \<Rightarrow> buffer \<Rightarrow> rc M" where
  "uot_send_domain_packet e st a payload = do {
     r \<leftarrow> uot_enqueue_pending e st a payload;
     if r \<noteq> NGX_OK then ret r
     else do {
       p \<leftarrow> sget st st_resolver_pending;
       if \<not> p then uot_process_pending e st else ret NGX_OK } }"

definition uot_send_payload :: "env \<Rightarrow> sptr \<Rightarrow> bool \<Rightarrow> addr \<Rightarrow> buffer \<Rightarrow> rc M" where
  "uot_send_payload e st is_target a payload = do {
     mode \<leftarrow> sget st st_uot_mode;
     if a_sockaddr a = None \<and> mode \<noteq> ADDR_UOT_V2_CONNECT then uot_send_domain_packet e st a payload
     else do {
       (r, a') \<leftarrow> uot_resolve_addr e st is_target a;
       only_if is_target (upd_stream st (\<lambda>s. s\<lparr>st_target := a'\<rparr>));
       if r = NGX_AGAIN then ret NGX_OK
       else if r \<noteq> NGX_OK then ret NGX_ERROR
       else uot_send_resolved e st a' payload } }"

section \<open>Packets from the client\<close>

definition uot_open :: "env \<Rightarrow> sptr \<Rightarrow> addr \<Rightarrow> rc M" where
  "uot_open e st a = do {
     full \<leftarrow> gets (\<lambda>c. c_uot_streams c \<ge> cf_max_uot_streams (c_conf c));
     if full then ret NGX_ERROR
     else do {
       modify (\<lambda>c. c\<lparr>c_uot_streams := Suc (c_uot_streams c)\<rparr>);
       upd_stream st (\<lambda>s. s\<lparr>st_uot_counted := True, st_upstream_type := UPSTREAM_UOT,
         st_uot_mode := a_mode a, st_state := STREAM_CONNECTED,
         st_uot_request_parsed := (a_mode a \<noteq> ADDR_UOT_V2_CONNECT)\<rparr>);
       client_mux_send_synack e st [] } }"

text \<open>
  The two loops over the buffered bytes: what is left of them, or \<open>None\<close> for an error.
  Each round consumes at least two bytes.
\<close>

fun uot_connect_loop :: "env \<Rightarrow> sptr \<Rightarrow> nat \<Rightarrow> buffer \<Rightarrow> buffer option M" where
  "uot_connect_loop e st 0 rest = ret (Some rest)"
| "uot_connect_loop e st (Suc n) rest =
     (if length rest < 2 then ret (Some rest)
      else
        let plen = unat (be16 (rest ! 0) (rest ! 1)) in
        if length rest - 2 < plen then ret (Some rest)
        else do {
          a \<leftarrow> sget st st_target;
          r \<leftarrow> uot_send_payload e st True a (take plen (drop 2 rest));
          if r \<noteq> NGX_OK then ret None
          else uot_connect_loop e st n (drop (2 + plen) rest) })"

fun uot_packet_loop :: "env \<Rightarrow> sptr \<Rightarrow> nat \<Rightarrow> buffer \<Rightarrow> buffer option M" where
  "uot_packet_loop e st 0 rest = ret (Some rest)"
| "uot_packet_loop e st (Suc n) rest =
     (if rest = [] then ret (Some [])
      else do {
        pool \<leftarrow> stream_pool e st;
        if \<not> pool then ret None
        else do {
          ok \<leftarrow> ask (e_alloc e);
          case snd (parse_uot_packet (e_ntop e) ok rest) of
            P_again \<Rightarrow> ret (Some rest)
          | P_error \<Rightarrow> ret None
          | P_ok (a, payload, consumed) \<Rightarrow> do {
              r \<leftarrow> uot_send_payload e st False a payload;
              if r \<noteq> NGX_OK then ret None
              else uot_packet_loop e st n (drop consumed rest) } } })"

definition uot_keep :: "sptr \<Rightarrow> buffer \<Rightarrow> unit M" where
  "uot_keep st left = upd_stream st (\<lambda>s.
     s\<lparr>st_uot_recv_pos := st_uot_recv_pos s + (length (st_uot_recv s) - length left), st_uot_recv := left\<rparr>)"

definition uot_finish :: "sptr \<Rightarrow> buffer option \<Rightarrow> rc M" where
  "uot_finish st left =
     (case left of None \<Rightarrow> ret NGX_ERROR | Some rest \<Rightarrow> do { uot_keep st rest; ret NGX_OK })"

text \<open>
  The request in front of the packets of a version 2 stream. \<open>Inl\<close> returns from the
  function, \<open>Inr\<close> are the bytes after it. (While the address is incomplete the
  target has been cleared; it is filled again when the next bytes arrive.)
\<close>

definition uot_request :: "env \<Rightarrow> sptr \<Rightarrow> buffer \<Rightarrow> (rc + buffer) M" where
  "uot_request e st p =
     (case p of
        [] \<Rightarrow> ret (Inl NGX_OK)
      | is_connect # q \<Rightarrow> do {
          pool \<leftarrow> stream_pool e st;
          if \<not> pool then ret (Inl NGX_ERROR)
          else do {
            ok \<leftarrow> ask (e_alloc e);
            case parse_socksaddr (e_ntop e) ok q of
              P_again \<Rightarrow> ret (Inl NGX_OK)
            | P_error \<Rightarrow> ret (Inl NGX_ERROR)
            | P_ok a \<Rightarrow> do {
                upd_stream st (\<lambda>s. s\<lparr>st_target := a, st_uot_request_parsed := True,
                  st_uot_mode := (if is_connect \<noteq> 0 then ADDR_UOT_V2_CONNECT else ADDR_UOT_PACKET)\<rparr>);
                ret (Inr (drop (a_consumed a) q)) } } })"

definition uot_packets :: "env \<Rightarrow> sptr \<Rightarrow> buffer \<Rightarrow> rc M" where
  "uot_packets e st rest = do {
     s \<leftarrow> sget st (\<lambda>s. s);
     if st_uot_mode s = ADDR_UOT_V2_CONNECT then do {
       (r, a) \<leftarrow> uot_resolve_addr e st True (st_target s);
       upd_stream st (\<lambda>s. s\<lparr>st_target := a\<rparr>);
       if r = NGX_AGAIN then do { uot_keep st rest; ret NGX_OK }
       else if r \<noteq> NGX_OK then ret NGX_ERROR
       else do { left \<leftarrow> uot_connect_loop e st (length rest) rest; uot_finish st left } }
     else do { left \<leftarrow> uot_packet_loop e st (length rest) rest; uot_finish st left } }"

definition uot_client_payload :: "env \<Rightarrow> sptr \<Rightarrow> buffer \<Rightarrow> rc M" where
  "uot_client_payload e st data = do {
     r \<leftarrow> uot_buffer_append e st data;
     if r \<noteq> NGX_OK then ret NGX_ERROR
     else do {
       s \<leftarrow> sget st (\<lambda>s. s);
       if st_resolver_pending s \<and> st_resolver_target s \<noteq> RESOLVE_UOT_PACKET then ret NGX_OK
       else if st_uot_mode s = ADDR_UOT_V2_CONNECT \<and> \<not> st_uot_request_parsed s then do {
         x \<leftarrow> uot_request e st (st_uot_recv s);
         case x of Inl r \<Rightarrow> ret r | Inr rest \<Rightarrow> uot_packets e st rest }
       else uot_packets e st (st_uot_recv s) } }"

section \<open>Resolver answers\<close>

definition clear_resolver :: "stream \<Rightarrow> stream" where
  "clear_resolver s = s\<lparr>st_resolver_target := RESOLVE_NONE, st_resolver_domain := [], st_resolver_port := 0\<rparr>"

definition uot_resolved :: "env \<Rightarrow> sptr \<Rightarrow> rc M" where
  "uot_resolved e st = do {
     s \<leftarrow> sget st (\<lambda>s. s);
     if st_uot_mode s \<noteq> ADDR_UOT_V2_CONNECT \<or> a_sockaddr (st_target s) = None then ret NGX_ERROR
     else uot_client_payload e st [] }"

definition uot_packet_resolve_failed :: "env \<Rightarrow> sptr \<Rightarrow> unit M" where
  "uot_packet_resolve_failed e st = do {
     domain \<leftarrow> sget st (\<lambda>s. take 256 (st_resolver_domain s));
     port \<leftarrow> sget st st_resolver_port;
     upd_stream st clear_resolver;
     only_if (domain \<noteq> []) (uot_drop_pending_domain st domain port);
     _ \<leftarrow> uot_process_pending e st;
     ret () }"

definition uot_packet_resolved :: "env \<Rightarrow> sptr \<Rightarrow> rc M" where
  "uot_packet_resolved e st = do {
     s \<leftarrow> sget st (\<lambda>s. s);
     if a_sockaddr (st_target s) = None then ret NGX_ERROR
     else if length (st_resolver_domain s) > 256 then ret NGX_ERROR
     else do {
       upd_stream st clear_resolver;
       r \<leftarrow> uot_flush_pending_domain e st (st_resolver_domain s) (st_resolver_port s)
              (a_sockaddr (st_target s));
       if r \<noteq> NGX_OK then ret r else uot_process_pending e st } }"

section \<open>Datagrams from the target\<close>

definition uot_queue_udp_frame :: "env \<Rightarrow> sptr \<Rightarrow> nat \<Rightarrow> buffer \<Rightarrow> rc M" where
  "uot_queue_udp_frame e st cap bytes = do {
     sid \<leftarrow> sget st st_id;
     client_mux_queue_chain_frame e (Some st) NGX_ANYTLS_CMD_PSH sid
       (Some \<lparr>ch_bytes = bytes, ch_cap = cap, ch_headroom = True\<rparr>) (length bytes) True False }"

text \<open>A datagram of one of the two families; \<open>max_len\<close> is the limit of the source.\<close>

definition uot_forward_dgram :: "env \<Rightarrow> sptr \<Rightarrow> nat \<Rightarrow> nat \<Rightarrow> byte \<Rightarrow> sockaddr \<Rightarrow> buffer \<Rightarrow> rc M" where
  "uot_forward_dgram e st cap max_len atyp sa payload =
     (if length payload > max_len then do {
        upstream_free_read_buf cap;
        upd_stream st (\<lambda>s. s\<lparr>st_uot_drop_count := Suc (st_uot_drop_count s)\<rparr>);
        uot_log_output_drop e st;
        ret NGX_OK }
      else do {
        r \<leftarrow> uot_queue_udp_frame e st cap
               (atyp # sa_ip sa @ put16 (sa_port sa) @ put16 (word_of_nat (length payload)) @ payload);
        if r \<noteq> NGX_OK then do {
          upstream_free_read_buf cap;
          uot_log_output_drop e st;
          ret NGX_AGAIN }
        else ret NGX_OK })"

definition uot_read_dgram :: "env \<Rightarrow> sptr \<Rightarrow> rc M" where
  "uot_read_dgram e st = do {
     cl \<leftarrow> upstream_get_read_buf e (NGX_ANYTLS_MAX_FRAME_DATA + NGX_ANYTLS_UOT_MAX_HEADER);
     case cl of
       None \<Rightarrow> ret NGX_ERROR
     | Some cap \<Rightarrow> do {
         d \<leftarrow> ask (\<lambda>t. e_recvfrom e t NGX_ANYTLS_MAX_FRAME_DATA);
         case d of
           Dgram_again \<Rightarrow> do { upstream_free_read_buf cap; ret NGX_AGAIN }
         | Dgram_error \<Rightarrow> do { upstream_free_read_buf cap; ret NGX_ERROR }
         | Dgram sa bytes \<Rightarrow>
             let payload = take NGX_ANYTLS_MAX_FRAME_DATA bytes in
             (case sa_family sa of
                AF_INET \<Rightarrow> uot_forward_dgram e st cap 65527 0 sa payload
              | AF_INET6 \<Rightarrow> uot_forward_dgram e st cap 65515 1 sa payload
              | AF_OTHER \<Rightarrow> do { upstream_free_read_buf cap; ret NGX_OK }) } }"

definition uot_idle_timeout_handler :: "env \<Rightarrow> rc M \<Rightarrow> sptr \<Rightarrow> unit M" where
  "uot_idle_timeout_handler e resume st = do {
     closed \<leftarrow> sget st (\<lambda>s. st_state s = STREAM_CLOSED);
     only_if (\<not> closed) (do {
       uot_close e st;
       _ \<leftarrow> stream_send_fin_and_close e resume st;
       ret () }) }"

end
