(* ===== verification/Upstream_Mux.thy ===== *)
theory Upstream_Mux
  imports Uot
begin

text \<open>
  The multiplexer towards the targets, \<open>src/src/ngx_anytls_upstream_mux.c\<close>: what the
  session code asks of it for a stream, the drain cycles over the streams whose sockets are
  ready, and the events of the sockets and of the resolver
  (\<open>src/src/ngx_anytls_upstream.c\<close>, \<open>src/src/ngx_anytls_uot.c\<close>,
  \<open>src/src/ngx_anytls_resolver.c\<close>).

  A loop over a queue holds a pointer to the next element (\<open>next_in\<close>), as the source
  does, because the body of the loop may take elements off the queue.
\<close>

abbreviation (input) "NGX_ANYTLS_SCHEDULE_FRAME_BUDGET \<equiv> 32 :: nat"
abbreviation (input) "NGX_ANYTLS_SCHEDULE_BYTE_BUDGET \<equiv> 2 ^ 64 - 1 :: nat"
abbreviation (input) "NGX_ANYTLS_SCHEDULE_STREAM_BUDGET \<equiv> 16 :: nat"

record sched =
  sb_frame_budget :: nat
  sb_byte_budget :: nat
  sb_stream_budget :: nat
  sb_frames :: nat
  sb_bytes :: nat
  sb_streams :: nat

definition sched_init :: sched where
  "sched_init = \<lparr>sb_frame_budget = NGX_ANYTLS_SCHEDULE_FRAME_BUDGET,
     sb_byte_budget = NGX_ANYTLS_SCHEDULE_BYTE_BUDGET,
     sb_stream_budget = NGX_ANYTLS_SCHEDULE_STREAM_BUDGET,
     sb_frames = 0, sb_bytes = 0, sb_streams = 0\<rparr>"

section \<open>Requests of the session\<close>

definition mux_is_uot :: "stream \<Rightarrow> bool" where
  "mux_is_uot s \<longleftrightarrow> st_upstream_type s = UPSTREAM_UOT"

definition mux_handle_client_fin :: "env \<Rightarrow> rc M \<Rightarrow> sptr \<Rightarrow> unit M" where
  "mux_handle_client_fin e resume st = do {
     stream_mark_closed_by_protocol st;
     s \<leftarrow> sget st (\<lambda>s. s);
     if mux_is_uot s then do { uot_close e st; stream_close e resume st }
     else if st_upstream s \<and> st_state s = STREAM_CONNECTED then do {
       x \<leftarrow> upstream_send_pending e resume st None;
       if fst x = NGX_ERROR then stream_close e resume st
       else do {
         s \<leftarrow> sget st (\<lambda>s. s);
         if st_pending_in s = [] then do {
           only_if (st_upstream s) (perform (Eff_shutdown_write st));
           upd_stream st (\<lambda>s. s\<lparr>st_state := STREAM_HALF_CLOSED\<rparr>) }
         else upd_stream st (\<lambda>s. s\<lparr>st_state := STREAM_HALF_CLOSED, st_pending_shutdown := True\<rparr>) } }
     else stream_close e resume st }"

definition mux_handle_client_payload :: "env \<Rightarrow> rc M \<Rightarrow> sptr \<Rightarrow> buffer \<Rightarrow> rc M" where
  "mux_handle_client_payload e resume st data = do {
     uot \<leftarrow> sget st mux_is_uot;
     if uot then uot_client_payload e st data else upstream_queue e resume st data }"

definition mux_open :: "env \<Rightarrow> rc M \<Rightarrow> sptr \<Rightarrow> addr \<Rightarrow> rc M" where
  "mux_open e resume st a = upstream_open e resume st a"

definition mux_open_resolved :: "env \<Rightarrow> rc M \<Rightarrow> sptr \<Rightarrow> rc M" where
  "mux_open_resolved e resume st = upstream_open_resolved e resume st"

definition mux_handle_first_psh :: "env \<Rightarrow> rc M \<Rightarrow> sptr \<Rightarrow> addr \<Rightarrow> buffer \<Rightarrow> rc M" where
  "mux_handle_first_psh e resume st a payload =
     (if a_mode a = ADDR_TCP then do {
        r \<leftarrow> (if payload \<noteq> [] then upstream_queue e resume st payload else ret NGX_OK);
        if r \<noteq> NGX_OK then ret NGX_ERROR
        else do {
          s \<leftarrow> sget st (\<lambda>s. s);
          if payload \<noteq> [] \<and> (st_state s = STREAM_CLOSING \<or> st_state s = STREAM_CLOSED) then ret NGX_OK
          else mux_open e resume st a } }
      else do {
        opened \<leftarrow> uot_open e st a;
        if opened \<noteq> NGX_OK then do {
          _ \<leftarrow> client_mux_send_synack e st (bytes_of ''uot-limit'');
          stream_close e resume st;
          ret NGX_OK }
        else if payload \<noteq> [] then uot_client_payload e st payload
        else ret NGX_OK })"

section \<open>Draining reads\<close>

definition mux_requeue_read :: "env \<Rightarrow> rc M" where
  "mux_requeue_read e = do {
     ready \<leftarrow> ask (e_flag e);
     active \<leftarrow> ask (e_flag e);
     if \<not> (ready \<and> active) then ret NGX_OK
     else do {
       del \<leftarrow> ask (e_rc e);
       if del \<noteq> NGX_OK then ret NGX_ERROR
       else do {
         add \<leftarrow> ask (e_rc e);
         ret (if add \<noteq> NGX_OK then NGX_ERROR else NGX_OK) } } }"

definition mux_queue_read :: "sptr \<Rightarrow> unit M" where
  "mux_queue_read st = do {
     s \<leftarrow> sget st (\<lambda>s. s);
     only_if (\<not> st_upstream_read_ready s \<and> \<not> st_upstream_read_blocked s) (do {
       upd_stream st (\<lambda>s. s\<lparr>st_upstream_read_ready := True\<rparr>);
       modify (\<lambda>c. c\<lparr>c_read_ready := c_read_ready c @ [st]\<rparr>) }) }"

definition block_or_close :: "env \<Rightarrow> rc M \<Rightarrow> sptr \<Rightarrow> unit M" where
  "block_or_close e resume st = do {
     r \<leftarrow> upstream_block_read e st;
     only_if (r \<noteq> NGX_OK) (stream_close e resume st) }"

text \<open>
  One read into a buffer of capacity \<open>cap\<close>: \<open>Inl b\<close> leaves the loop (\<open>b\<close>: by
  \<open>break\<close>, else by \<open>goto next_stream\<close>), \<open>Inr\<close> the payload and the length the frame
  announces. An empty datagram on a connected UoT stream announces two bytes and has none.
\<close>

definition read_upstream :: "env \<Rightarrow> rc M \<Rightarrow> sptr \<Rightarrow> nat \<Rightarrow> nat \<Rightarrow> (bool + buffer \<times> nat) M" where
  "read_upstream e resume st sz cap = do {
     s \<leftarrow> sget st (\<lambda>s. s);
     if mux_is_uot s \<and> st_uot_mode s = ADDR_UOT_V2_CONNECT then
       (if sz \<le> 2 then do {
          upstream_free_read_buf cap;
          stream_close e resume st;
          ret (Inl False) }
        else do {
          r \<leftarrow> transport_read_udp e (sz - 2);
          case r of
            Recv_again \<Rightarrow> do { upstream_free_read_buf cap; ret (Inl True) }
          | Recv_error \<Rightarrow> do { upstream_free_read_buf cap; stream_close e resume st; ret (Inl False) }
          | Recv_eof \<Rightarrow> ret (Inr ([], 2))
          | Recv_bytes bs \<Rightarrow> ret (Inr (put16 (word_of_nat (length bs)) @ bs, length bs + 2)) })
     else do {
       r \<leftarrow> (if mux_is_uot s then transport_read_udp e sz else transport_read e sz);
       case r of
         Recv_again \<Rightarrow> do { upstream_free_read_buf cap; ret (Inl True) }
       | Recv_eof \<Rightarrow> do {
           upstream_free_read_buf cap;
           perform (Eff_close_upstream st);
           upd_stream st (\<lambda>s. s\<lparr>st_upstream := False\<rparr>);
           _ \<leftarrow> stream_send_fin_and_close e resume st;
           ret (Inl False) }
       | Recv_error \<Rightarrow> do { upstream_free_read_buf cap; stream_close e resume st; ret (Inl False) }
       | Recv_bytes bs \<Rightarrow> ret (Inr (bs, length bs)) } }"

definition count_read_frame :: "env \<Rightarrow> sptr \<Rightarrow> sched \<Rightarrow> nat \<Rightarrow> sched M" where
  "count_read_frame e st sb n = do {
     now \<leftarrow> ask (e_now e);
     tr \<leftarrow> sget st st_upstream_state;
     states \<leftarrow> gets c_upstream_states;
     let (states', tr') = state_record_received now states tr (int n);
     modify (\<lambda>c. c\<lparr>c_upstream_states := states'\<rparr>);
     upd_stream st (\<lambda>s. s\<lparr>st_upstream_state := tr', st_last_activity := now\<rparr>);
     ret (sb\<lparr>sb_frames := Suc (sb_frames sb), sb_bytes := sb_bytes sb + n\<rparr>) }"

text \<open>
  The loop over the reads of one stream: the budget afterwards, and whether it was left by
  \<open>break\<close>. Every further round counts a frame, so the frame budget bounds the rounds.
\<close>

fun read_loop :: "env \<Rightarrow> rc M \<Rightarrow> sptr \<Rightarrow> nat \<Rightarrow> nat \<Rightarrow> sched \<Rightarrow> (sched \<times> bool) M" where
  "read_loop e resume st sz 0 sb = ret (sb, True)"
| "read_loop e resume st sz (Suc n) sb =
     (if sb_frames sb \<ge> sb_frame_budget sb \<or> sb_bytes sb \<ge> sb_byte_budget sb then do {
        mux_queue_read st;
        r \<leftarrow> mux_requeue_read e;
        only_if (r \<noteq> NGX_OK) (stream_close e resume st);
        ret (sb, True) }
      else do {
        blocked \<leftarrow> gets (\<lambda>c. c_output_pressure c \<or> \<not> client_mux_has_room c sz);
        if blocked then do { block_or_close e resume st; ret (sb, False) }
        else do {
          cl \<leftarrow> upstream_get_read_buf e sz;
          case cl of
            None \<Rightarrow> do { stream_close e resume st; ret (sb, False) }
          | Some cap \<Rightarrow> do {
              x \<leftarrow> read_upstream e resume st sz cap;
              case x of
                Inl brk \<Rightarrow> ret (sb, brk)
              | Inr (bytes, len) \<Rightarrow> do {
                  sid \<leftarrow> sget st st_id;
                  r \<leftarrow> client_mux_queue_chain_frame e (Some st) NGX_ANYTLS_CMD_PSH sid
                         (Some \<lparr>ch_bytes = bytes, ch_cap = cap, ch_headroom = True\<rparr>) len True True;
                  if r = NGX_AGAIN then do {
                    upstream_free_read_buf cap;
                    block_or_close e resume st;
                    ret (sb, False) }
                  else if r \<noteq> NGX_OK then do {
                    upstream_free_read_buf cap;
                    stream_close e resume st;
                    ret (sb, False) }
                  else do {
                    sb' \<leftarrow> count_read_frame e st sb len;
                    read_loop e resume st sz n sb' } } } } })"

text \<open>
  The loop over \<open>read_ready\<close>; the result tells whether it ended. The rounds are bounded
  by the queue and the stream budget, unless the body takes the saved successor off the queue:
  that element is linked to itself, and the source stays on it. \<open>False\<close> stands for that.
\<close>

fun drain_reads_loop :: "env \<Rightarrow> rc M \<Rightarrow> nat \<Rightarrow> sched \<Rightarrow> sptr option \<Rightarrow> bool M" where
  "drain_reads_loop e resume 0 sb cur = ret (cur = None)"
| "drain_reads_loop e resume (Suc n) sb cur =
     (case cur of
        None \<Rightarrow> ret True
      | Some st \<Rightarrow>
          if sb_streams sb \<ge> sb_stream_budget sb then ret True
          else do {
            nxt \<leftarrow> gets (\<lambda>c. next_in st (c_read_ready c));
            upd_stream st (\<lambda>s. s\<lparr>st_upstream_read_ready := False\<rparr>);
            modify (\<lambda>c. c\<lparr>c_read_ready := remove1 st (c_read_ready c)\<rparr>);
            readable \<leftarrow> sget st mux_stream_readable;
            if \<not> readable then drain_reads_loop e resume n sb nxt
            else do {
              sz \<leftarrow> gets (\<lambda>c. mux_read_size c st);
              let sb1 = sb\<lparr>sb_streams := Suc (sb_streams sb)\<rparr>;
              (sb2, brk) \<leftarrow> read_loop e resume st sz (Suc (sb_frame_budget sb1 - sb_frames sb1)) sb1;
              only_if brk (do { _ \<leftarrow> ask (e_rc e); ret () });
              drain_reads_loop e resume n sb2 nxt } })"

definition mux_drain_reads :: "env \<Rightarrow> rc M \<Rightarrow> sched \<Rightarrow> bool M" where
  "mux_drain_reads e resume sb = do {
     q \<leftarrow> gets c_read_ready;
     drain_reads_loop e resume (Suc (length q + sb_stream_budget sb)) sb
       (case q of [] \<Rightarrow> None | st # _ \<Rightarrow> Some st) }"

definition mux_on_read_ready :: "env \<Rightarrow> rc M \<Rightarrow> sptr \<Rightarrow> bool M" where
  "mux_on_read_ready e resume st = do {
     readable \<leftarrow> sget st mux_stream_readable;
     if \<not> readable then ret True
     else do {
       mux_queue_read st;
       mux_drain_reads e resume sched_init } }"

section \<open>Draining writes\<close>

definition mux_write_conn :: "stream \<Rightarrow> bool" where
  "mux_write_conn s = st_upstream s"

definition mux_stream_writable :: "stream \<Rightarrow> bool" where
  "mux_stream_writable s \<longleftrightarrow> mux_write_conn s
     \<and> (st_state s = STREAM_CONNECTED \<or> st_state s = STREAM_HALF_CLOSED \<or> st_state s = STREAM_CONNECTING)"

definition count_write_flush :: "env \<Rightarrow> sptr \<Rightarrow> sched \<Rightarrow> nat \<Rightarrow> sched M" where
  "count_write_flush e st sb sent = do {
     now \<leftarrow> ask (e_now e);
     upd_stream st (\<lambda>s. s\<lparr>st_last_activity := now\<rparr>);
     ret (sb\<lparr>sb_frames := Suc (sb_frames sb), sb_bytes := sb_bytes sb + sent\<rparr>) }"

definition mux_queue_write :: "sptr \<Rightarrow> unit M" where
  "mux_queue_write st = do {
     upd_stream st (\<lambda>s. s\<lparr>st_upstream_write_ready := True\<rparr>);
     modify (\<lambda>c. c\<lparr>c_write_ready := c_write_ready c @ [st]\<rparr>) }"

text \<open>
  The byte budget passed on is the largest \<open>size_t\<close>, which means no limit, until bytes
  were sent. A round ends the loop by the budgets or takes an element off the queue; one that
  fails to send does not count, and is taken off as well.
\<close>

definition write_budget :: "sched \<Rightarrow> nat option" where
  "write_budget sb =
     (let b = sb_byte_budget sb - sb_bytes sb in if b = 2 ^ 64 - 1 then None else Some b)"

fun drain_writes_loop :: "env \<Rightarrow> rc M \<Rightarrow> nat \<Rightarrow> sched \<Rightarrow> sptr option \<Rightarrow> unit M" where
  "drain_writes_loop e resume 0 sb cur = ret ()"
| "drain_writes_loop e resume (Suc n) sb cur =
     (case cur of
        None \<Rightarrow> ret ()
      | Some st \<Rightarrow>
          if sb_streams sb \<ge> sb_stream_budget sb \<or> sb_frames sb \<ge> sb_frame_budget sb
             \<or> sb_bytes sb \<ge> sb_byte_budget sb then ret ()
          else do {
            nxt \<leftarrow> gets (\<lambda>c. next_in st (c_write_ready c));
            upd_stream st (\<lambda>s. s\<lparr>st_upstream_write_ready := False\<rparr>);
            modify (\<lambda>c. c\<lparr>c_write_ready := remove1 st (c_write_ready c)\<rparr>);
            (r, sent) \<leftarrow> upstream_send_pending e resume st (write_budget sb);
            if r = NGX_ERROR then do {
              stream_close e resume st;
              drain_writes_loop e resume n sb nxt }
            else do {
              sb' \<leftarrow> count_write_flush e st (sb\<lparr>sb_streams := Suc (sb_streams sb)\<rparr>) sent;
              s \<leftarrow> sget st (\<lambda>s. s);
              only_if (st_pending_in s \<noteq> [] \<and> \<not> st_upstream_write_ready s \<and> mux_stream_writable s)
                (mux_queue_write st);
              drain_writes_loop e resume n sb' nxt } })"

definition mux_drain_writes :: "env \<Rightarrow> rc M \<Rightarrow> sched \<Rightarrow> unit M" where
  "mux_drain_writes e resume sb = do {
     q \<leftarrow> gets c_write_ready;
     drain_writes_loop e resume (length q + sb_stream_budget sb) sb
       (case q of [] \<Rightarrow> None | st # _ \<Rightarrow> Some st) }"

definition mux_on_write_ready :: "env \<Rightarrow> rc M \<Rightarrow> sptr \<Rightarrow> unit M" where
  "mux_on_write_ready e resume st = do {
     s \<leftarrow> sget st (\<lambda>s. s);
     only_if (mux_stream_writable s) (do {
       only_if (\<not> st_upstream_write_ready s) (mux_queue_write st);
       mux_drain_writes e resume sched_init }) }"

section \<open>Events\<close>

definition upstream_write_handler :: "env \<Rightarrow> rc M \<Rightarrow> sptr \<Rightarrow> bool \<Rightarrow> unit M" where
  "upstream_write_handler e resume st timedout = do {
     connecting \<leftarrow> sget st (\<lambda>s. st_state s = STREAM_CONNECTING);
     if \<not> connecting then mux_on_write_ready e resume st
     else if timedout then do {
       _ \<leftarrow> client_mux_send_synack e st (bytes_of ''connect timeout'');
       stream_close e resume st }
     else do {
       test_connect \<leftarrow> ask (e_rc e);
       if test_connect \<noteq> NGX_OK then do {
         _ \<leftarrow> client_mux_send_synack e st (bytes_of ''connect failed'');
         stream_close e resume st }
       else do {
         timer_set \<leftarrow> ask (e_flag e);
         only_if timer_set (perform (Eff_disarm_timer (Timer_upstream_write st)));
         r \<leftarrow> mux_on_connect_ready e resume st;
         only_if (r = NGX_OK) (mux_on_write_ready e resume st) } } }"

definition upstream_read_handler :: "env \<Rightarrow> rc M \<Rightarrow> sptr \<Rightarrow> bool M" where
  "upstream_read_handler e resume st = mux_on_read_ready e resume st"

text \<open>
  The loop of \<open>ngx_anytls_udp_read_handler\<close> reads until the socket has no datagram; the
  caller gives the number of rounds, and \<open>None\<close> means that there are more.
\<close>

fun udp_read_loop :: "env \<Rightarrow> sptr \<Rightarrow> nat \<Rightarrow> rc option M" where
  "udp_read_loop e st 0 = ret None"
| "udp_read_loop e st (Suc n) = do {
     r \<leftarrow> uot_read_dgram e st;
     if r = NGX_OK then udp_read_loop e st n else ret (Some r) }"

definition udp_read_handler :: "env \<Rightarrow> rc M \<Rightarrow> nat \<Rightarrow> sptr \<Rightarrow> bool M" where
  "udp_read_handler e resume rounds st = do {
     uot_arm_idle_timer e st;
     mode \<leftarrow> sget st st_uot_mode;
     if mode = ADDR_UOT_V2_CONNECT then mux_on_read_ready e resume st
     else do {
       accept \<leftarrow> gets (\<lambda>c. client_mux_can_accept_output c 0);
       if \<not> accept then do {
         blocked \<leftarrow> sget st st_upstream_read_blocked;
         only_if (\<not> blocked) (do { _ \<leftarrow> upstream_block_read e st; ret () });
         ret True }
       else do {
         r \<leftarrow> udp_read_loop e st rounds;
         case r of
           None \<Rightarrow> ret False
         | Some r \<Rightarrow>
             if r = NGX_AGAIN then do { _ \<leftarrow> ask (e_rc e); ret True }
             else do { stream_close e resume st; ret True } } } }"

datatype resolve_event = RESOLVE_OK | RESOLVE_ERROR

definition mux_event :: "env \<Rightarrow> rc M \<Rightarrow> sptr \<Rightarrow> resolve_event \<Rightarrow> unit M" where
  "mux_event e resume st ev = do {
     target \<leftarrow> sget st st_resolver_target;
     case ev of
       RESOLVE_OK \<Rightarrow>
         if target = RESOLVE_TCP then do {
           upd_stream st clear_resolver;
           r \<leftarrow> mux_open_resolved e resume st;
           only_if (r \<noteq> NGX_OK) (stream_close e resume st) }
         else if target = RESOLVE_UOT_CONNECT then do {
           upd_stream st clear_resolver;
           r \<leftarrow> uot_resolved e st;
           only_if (r \<noteq> NGX_OK) (stream_close e resume st) }
         else if target = RESOLVE_UOT_PACKET then do {
           r \<leftarrow> uot_packet_resolved e st;
           only_if (r \<noteq> NGX_OK) (stream_close e resume st) }
         else upd_stream st clear_resolver
     | RESOLVE_ERROR \<Rightarrow>
         if target = RESOLVE_TCP then do {
           upd_stream st clear_resolver;
           _ \<leftarrow> client_mux_send_synack e st (bytes_of ''resolve failed'');
           stream_close e resume st }
         else if target = RESOLVE_UOT_PACKET then uot_packet_resolve_failed e st
         else do { upd_stream st clear_resolver; stream_close e resume st } }"

text \<open>
  \<open>ngx_anytls_resolver_copy_addr\<close>: the target with the first address of a usable family
  and the port of the request.
\<close>

definition resolver_copy_addr :: "stream \<Rightarrow> sockaddr list \<Rightarrow> addr option" where
  "resolver_copy_addr s addrs =
     (case filter (\<lambda>sa. sa_family sa = AF_INET \<or> sa_family sa = AF_INET6) addrs of
        [] \<Rightarrow> None
      | sa # _ \<Rightarrow> Some ((st_target s)\<lparr>a_sockaddr := Some (sa\<lparr>sa_port := st_resolver_port s\<rparr>),
          a_port := st_resolver_port s\<rparr>))"

text \<open>\<open>ngx_anytls_resolve_handler\<close>: \<open>None\<close> is a failure of the resolver.\<close>

definition resolve_handler :: "env \<Rightarrow> rc M \<Rightarrow> sptr \<Rightarrow> sockaddr list option \<Rightarrow> unit M" where
  "resolve_handler e resume st answer = do {
     current \<leftarrow> sget st st_resolver_ctx;
     if \<not> current then perform (Eff_resolve_done st)
     else do {
       upd_stream st (\<lambda>s. s\<lparr>st_resolver_ctx := False, st_resolver_pending := False\<rparr>);
       s \<leftarrow> sget st (\<lambda>s. s);
       case (case answer of None \<Rightarrow> None | Some addrs \<Rightarrow> resolver_copy_addr s addrs) of
         None \<Rightarrow> do {
           perform (Eff_resolve_done st);
           mux_event e resume st RESOLVE_ERROR }
       | Some a \<Rightarrow> do {
           upd_stream st (\<lambda>s. s\<lparr>st_target := a\<rparr>);
           perform (Eff_resolve_done st);
           mux_event e resume st RESOLVE_OK } } }"

end
