(* ===== verification/Fallback.thy ===== *)
theory Fallback
  imports Upstream
begin

text \<open>
  The fallback, \<open>src/src/ngx_anytls_fallback.c\<close>: a client that does not authenticate is
  connected to another server, which gets the bytes received so far and then everything the
  client sends. A connection is named by a flag that says whether it is the client's.
\<close>

abbreviation (input) "NGX_ANYTLS_FALLBACK_READ_BUDGET_BYTES \<equiv> 1048576 :: nat"
abbreviation (input) "NGX_ANYTLS_FALLBACK_READ_BUDGET_LOOPS \<equiv> 16 :: nat"
abbreviation (input) "NGX_ANYTLS_FALLBACK_WRITE_BUDGET_BYTES \<equiv> 1048576 :: nat"

section \<open>Statistics\<close>

definition fallback_state_open :: "env \<Rightarrow> buffer \<Rightarrow> rc M" where
  "fallback_state_open e name = do {
     now \<leftarrow> ask (e_now e);
     array \<leftarrow> ask (e_alloc e);
     push \<leftarrow> ask (e_alloc e);
     str \<leftarrow> ask (e_alloc e);
     data \<leftarrow> ask (e_alloc e);
     c \<leftarrow> gets (\<lambda>c. c);
     let (r, states, tr) =
       state_open now \<lparr>oa_array = array, oa_push = push, oa_str = str, oa_data = data\<rparr>
         (c_upstream_states c) (c_fallback_state c) name;
     modify (\<lambda>c. c\<lparr>c_upstream_states := states, c_fallback_state := tr\<rparr>);
     ret r }"

definition fallback_on_connect :: "env \<Rightarrow> unit M" where
  "fallback_on_connect e = do {
     now \<leftarrow> ask (e_now e);
     modify (\<lambda>c. c\<lparr>c_upstream_states := state_on_connect now (c_upstream_states c) (c_fallback_state c)\<rparr>) }"

definition fallback_on_first_byte :: "env \<Rightarrow> unit M" where
  "fallback_on_first_byte e = do {
     now \<leftarrow> ask (e_now e);
     modify (\<lambda>c. c\<lparr>c_upstream_states := state_on_first_byte now (c_upstream_states c) (c_fallback_state c)\<rparr>) }"

definition fallback_count :: "bool \<Rightarrow> nat \<Rightarrow> unit M" where
  "fallback_count upstream n = modify (\<lambda>c. c\<lparr>c_fallback_state :=
     (if upstream then state_add_bytes_sent (c_upstream_states c) (c_fallback_state c) (int n)
      else state_add_bytes_received (c_upstream_states c) (c_fallback_state c) (int n))\<rparr>)"

section \<open>Starting\<close>

definition fallback_start :: "env \<Rightarrow> buffer \<Rightarrow> rc M" where
  "fallback_start e raw = do {
     conf \<leftarrow> gets c_conf;
     if \<not> cf_fallback conf then ret NGX_DECLINED
     else do {
       target \<leftarrow> ask (e_fallback_target e);
       urls \<leftarrow> ask (\<lambda>t. case target of None \<Rightarrow> None | Some url \<Rightarrow> e_fallback_url e t url);
       case urls of
         None \<Rightarrow> ret NGX_ERROR
       | Some [] \<Rightarrow> ret NGX_ERROR
       | Some (name # _) \<Rightarrow> do {
           opened \<leftarrow> fallback_state_open e name;
           if opened \<noteq> NGX_OK then ret NGX_ERROR
           else do {
             r \<leftarrow> ask (e_connect e);
             if r = NGX_ERROR \<or> r = NGX_BUSY \<or> r = NGX_DECLINED then ret NGX_ERROR
             else do {
               modify (\<lambda>c. c\<lparr>c_fallback := True\<rparr>);
               only_if (r = NGX_AGAIN) (perform (Eff_arm_timer Timer_fallback_write));
               only_if (r = NGX_OK) (do {
                 modify (\<lambda>c. c\<lparr>c_fallback_connected := True\<rparr>);
                 fallback_on_connect e });
               ok \<leftarrow> ask (e_alloc e);
               if \<not> ok then ret NGX_ERROR
               else do {
                 header \<leftarrow> (if cf_fallback_proxy_protocol conf then ask (e_proxy_header e) else ret None);
                 let bytes = (case header of None \<Rightarrow> raw | Some h \<Rightarrow> h @ raw);
                 modify (\<lambda>c. c\<lparr>c_fallback_replay := Some \<lparr>fb_pos = 0, fb_data = bytes\<rparr>,
                               ac_state := CONN_FALLBACK\<rparr>);
                 perform Eff_post_fallback_write;
                 ret NGX_OK } } } } } }"

section \<open>Buffers\<close>

definition fallback_buf_pending :: "fbuf option \<Rightarrow> bool" where
  "fallback_buf_pending b \<longleftrightarrow> (case b of None \<Rightarrow> False | Some fb \<Rightarrow> fb_data fb \<noteq> [])"

text \<open>
  \<open>ngx_anytls_fallback_flush_buf\<close>: the return code and the buffer afterwards. Every
  round sends at least one byte.
\<close>

definition post_write_next :: "bool \<Rightarrow> effect" where
  "post_write_next upstream = (if upstream then Eff_post_fallback_write_next else Eff_post_client_write_next)"

primrec flush_buf_loop :: "env \<Rightarrow> bool \<Rightarrow> nat \<Rightarrow> nat \<Rightarrow> nat \<Rightarrow> fbuf \<Rightarrow> (rc \<times> fbuf) M" where
  "flush_buf_loop e upstream budget 0 sent b = ret (NGX_OK, b)"
| "flush_buf_loop e upstream budget (Suc n) sent b =
     (if fb_data b = [] then ret (NGX_OK, \<lparr>fb_pos = 0, fb_data = []\<rparr>)
      else do {
        let sz = min (length (fb_data b)) (budget - sent);
        r \<leftarrow> ask (\<lambda>t. e_send e t sz);
        case r of
          IO_again \<Rightarrow> do {
            armed \<leftarrow> arm_write e;
            ret (if armed \<noteq> NGX_OK then NGX_ERROR else NGX_AGAIN, b) }
        | IO_error \<Rightarrow> ret (NGX_ERROR, b)
        | IO_bytes k \<Rightarrow>
            if min k sz = 0 then ret (NGX_ERROR, b)
            else do {
              let bs = take (min k sz) (fb_data b);
              let b' = \<lparr>fb_pos = fb_pos b + length bs, fb_data = drop (min k sz) (fb_data b)\<rparr>;
              perform (if upstream then Eff_fallback_write bs else Eff_client_send bs);
              fallback_count upstream (length bs);
              if sent + length bs \<ge> budget \<and> fb_data b' \<noteq> [] then do {
                armed \<leftarrow> arm_write e;
                if armed \<noteq> NGX_OK then ret (NGX_ERROR, b')
                else do { perform (post_write_next upstream); ret (NGX_AGAIN, b') } }
              else flush_buf_loop e upstream budget n (sent + length bs) b' } })"

definition fallback_flush_buf :: "env \<Rightarrow> bool \<Rightarrow> nat \<Rightarrow> fbuf option \<Rightarrow> (rc \<times> fbuf option) M" where
  "fallback_flush_buf e upstream budget b =
     (case b of
        None \<Rightarrow> ret (NGX_OK, None)
      | Some fb \<Rightarrow> do {
          (r, fb') \<leftarrow> flush_buf_loop e upstream budget (Suc (length (fb_data fb))) 0 fb;
          ret (r, Some fb') })"

text \<open>The buffer for what comes from the client (\<open>upstream\<close>) or from the fallback.\<close>

definition get_slot :: "bool \<Rightarrow> conn \<Rightarrow> fbuf option" where
  "get_slot upstream c = (if upstream then c_fallback_client_buf c else c_fallback_upstream_buf c)"

definition set_slot :: "bool \<Rightarrow> fbuf option \<Rightarrow> unit M" where
  "set_slot upstream b = modify (\<lambda>c.
     if upstream then c\<lparr>c_fallback_client_buf := b\<rparr> else c\<lparr>c_fallback_upstream_buf := b\<rparr>)"

definition fallback_get_buf :: "env \<Rightarrow> bool \<Rightarrow> fbuf option M" where
  "fallback_get_buf e upstream = do {
     b \<leftarrow> gets (get_slot upstream);
     case b of
       Some fb \<Rightarrow> ret (Some fb)
     | None \<Rightarrow> do {
         ok \<leftarrow> ask (e_alloc e);
         let b' = (if ok then Some \<lparr>fb_pos = 0, fb_data = []\<rparr> else None);
         set_slot upstream b';
         ret b' } }"

definition flush_slot :: "env \<Rightarrow> bool \<Rightarrow> rc M" where
  "flush_slot e upstream = do {
     b \<leftarrow> gets (get_slot upstream);
     (r, b') \<leftarrow> fallback_flush_buf e upstream NGX_ANYTLS_FALLBACK_WRITE_BUDGET_BYTES b;
     set_slot upstream b';
     ret r }"

section \<open>Write events\<close>

definition fallback_bad_gateway :: "env \<Rightarrow> rc M \<Rightarrow> unit M" where
  "fallback_bad_gateway e resume = finalize_rc e resume NGX_STREAM_BAD_GATEWAY"

definition arm_or_finalize :: "env \<Rightarrow> rc M \<Rightarrow> unit M" where
  "arm_or_finalize e resume = do {
     r \<leftarrow> ask (e_rc e);
     only_if (r \<noteq> NGX_OK) (finalize e resume) }"

text \<open>The end of the connect: whether the write event goes on to the data.\<close>

definition fallback_connected :: "env \<Rightarrow> rc M \<Rightarrow> bool \<Rightarrow> bool M" where
  "fallback_connected e resume timedout =
     (if timedout then do { fallback_bad_gateway e resume; ret False }
      else do {
        ready \<leftarrow> ask (e_flag e);
        if \<not> ready then do { arm_or_finalize e resume; ret False }
        else do {
          test_connect \<leftarrow> ask (e_rc e);
          if test_connect \<noteq> NGX_OK then do { fallback_bad_gateway e resume; ret False }
          else do {
            timer_set \<leftarrow> ask (e_flag e);
            only_if timer_set (perform (Eff_disarm_timer Timer_fallback_write));
            modify (\<lambda>c. c\<lparr>c_fallback_connected := True\<rparr>);
            fallback_on_connect e;
            ret True } } })"

definition fallback_flush_upstream :: "env \<Rightarrow> rc M \<Rightarrow> unit M" where
  "fallback_flush_upstream e resume = do {
     fallback_on_connect e;
     replay \<leftarrow> gets c_fallback_replay;
     (r, replay') \<leftarrow> fallback_flush_buf e True NGX_ANYTLS_FALLBACK_WRITE_BUDGET_BYTES replay;
     modify (\<lambda>c. c\<lparr>c_fallback_replay := replay'\<rparr>);
     if r = NGX_ERROR then finalize e resume
     else if r = NGX_AGAIN then ret ()
     else do {
       modify (\<lambda>c. c\<lparr>c_fallback_replay := None\<rparr>);
       r \<leftarrow> flush_slot e True;
       if r = NGX_ERROR then finalize e resume
       else if r = NGX_AGAIN then ret ()
       else do {
         client \<leftarrow> ask (e_rc e);
         fb \<leftarrow> (if client = NGX_OK then ask (e_rc e) else ret NGX_ERROR);
         only_if (fb \<noteq> NGX_OK) (finalize e resume) } } }"

definition fallback_write :: "env \<Rightarrow> rc M \<Rightarrow> bool \<Rightarrow> bool \<Rightarrow> unit M" where
  "fallback_write e resume is_client timedout = do {
     connected \<leftarrow> gets c_fallback_connected;
     go \<leftarrow> (if \<not> is_client \<and> \<not> connected then fallback_connected e resume timedout else ret True);
     only_if go (do {
       ready \<leftarrow> ask (e_flag e);
       if \<not> ready then arm_or_finalize e resume
       else if \<not> is_client then fallback_flush_upstream e resume
       else do {
         r \<leftarrow> flush_slot e False;
         if r = NGX_ERROR then finalize e resume
         else if r = NGX_AGAIN then ret ()
         else arm_or_finalize e resume } }) }"

section \<open>Read events\<close>

text \<open>
  The loop over the reads: \<open>Some exhausted\<close> when it is left by \<open>break\<close>, \<open>None\<close> when
  the function returns in it. The loop budget bounds the rounds.
\<close>

primrec fallback_read_loop :: "env \<Rightarrow> rc M \<Rightarrow> bool \<Rightarrow> nat \<Rightarrow> nat \<Rightarrow> bool option M" where
  "fallback_read_loop e resume upstream 0 read_bytes = ret (Some True)"
| "fallback_read_loop e resume upstream (Suc n) read_bytes = do {
     b \<leftarrow> gets (\<lambda>c. case get_slot upstream c of None \<Rightarrow> \<lparr>fb_pos = 0, fb_data = []\<rparr> | Some fb \<Rightarrow> fb);
     room \<leftarrow> gets (\<lambda>c. cf_buffer_size (c_conf c) - (fb_pos b + length (fb_data b)));
     if room = 0 then do { arm_or_finalize e resume; ret None }
     else do {
       r \<leftarrow> transport_read e room;
       case r of
         Recv_again \<Rightarrow> ret (Some False)
       | Recv_eof \<Rightarrow> do { finalize e resume; ret None }
       | Recv_error \<Rightarrow> do { finalize e resume; ret None }
       | Recv_bytes bs \<Rightarrow> do {
           set_slot upstream (Some (b\<lparr>fb_data := fb_data b @ bs\<rparr>));
           (if upstream then modify (\<lambda>c. c\<lparr>c_received := c_received c + length bs\<rparr>)
            else fallback_on_first_byte e);
           r \<leftarrow> flush_slot e upstream;
           if r = NGX_ERROR then do { finalize e resume; ret None }
           else if r = NGX_AGAIN then ret None
           else if read_bytes + length bs \<ge> NGX_ANYTLS_FALLBACK_READ_BUDGET_BYTES then ret (Some True)
           else fallback_read_loop e resume upstream n (read_bytes + length bs) } } }"

definition fallback_read :: "env \<Rightarrow> rc M \<Rightarrow> bool \<Rightarrow> unit M" where
  "fallback_read e resume upstream = do {
     c \<leftarrow> gets (\<lambda>c. c);
     if upstream \<and> \<not> c_fallback c then finalize e resume
     else if upstream \<and> c_fallback_replay c \<noteq> None then arm_or_finalize e resume
     else do {
       b \<leftarrow> fallback_get_buf e upstream;
       if b = None then finalize e resume
       else if fallback_buf_pending b then do {
         r \<leftarrow> flush_slot e upstream;
         only_if (r = NGX_ERROR) (finalize e resume) }
       else do {
         r \<leftarrow> fallback_read_loop e resume upstream NGX_ANYTLS_FALLBACK_READ_BUDGET_LOOPS 0;
         case r of
           None \<Rightarrow> ret ()
         | Some exhausted \<Rightarrow> do {
             armed \<leftarrow> ask (e_rc e);
             if armed \<noteq> NGX_OK then finalize e resume
             else only_if exhausted
                    (perform (if upstream then Eff_post_client_read_next
                              else Eff_post_fallback_read_next)) } } } }"

end
