(* ===== verification/Client_Handler.thy ===== *)
theory Client_Handler
  imports Upstream_Mux Fallback
begin

text \<open>
  The client side of a connection: the dispatcher of session actions
  (\<open>src/src/ngx_anytls_session_actions.c\<close>), the processing of client bytes and the events
  of the client connection (\<open>src/src/ngx_anytls_client_handler.c\<close>), and the set-up of a
  connection (\<open>src/src/ngx_anytls_connection.c\<close>).

  \<open>ngx_anytls_process_client_bytes\<close> and \<open>ngx_anytls_client_input_resume\<close> call each
  other through nearly everything. \<open>client_input_resume e n\<close> unrolls that recursion
  \<open>n\<close> times. Two are enough, because bytes that are being processed are not in the remnant
  any more: the bottom of the unrolling marks the trace with \<open>Eff_unreached\<close>, and no
  connection ever shows that mark (\<open>resume_depth\<close>).
\<close>

abbreviation (input) "NGX_ANYTLS_CLIENT_READ_BUDGET_BYTES \<equiv> 1048576 :: nat"
abbreviation (input) "NGX_ANYTLS_CLIENT_READ_BUDGET_LOOPS \<equiv> 16 :: nat"

section \<open>Session actions\<close>

definition stream_is_first_psh :: "stream \<Rightarrow> bool" where
  "stream_is_first_psh s \<longleftrightarrow> \<not> st_first_psh_seen s"

definition stream_set_first_psh :: "addr \<Rightarrow> stream \<Rightarrow> stream" where
  "stream_set_first_psh a s = s\<lparr>st_first_psh_seen := True, st_target := a\<rparr>"

definition forward_first_psh :: "env \<Rightarrow> rc M \<Rightarrow> sptr \<Rightarrow> buffer \<Rightarrow> rc M" where
  "forward_first_psh e resume st data = do {
     pool \<leftarrow> stream_pool e st;
     if \<not> pool then ret NGX_ERROR
     else do {
       alloc_host \<leftarrow> ask (e_alloc e);
       alloc_acc \<leftarrow> ask (e_alloc e);
       acc \<leftarrow> sget st st_first_psh;
       let (r, acc', out) = first_psh (e_ntop e) alloc_host alloc_acc acc data;
       upd_stream st (\<lambda>s. s\<lparr>st_first_psh := acc'\<rparr>);
       case out of
         None \<Rightarrow> ret r
       | Some (a, payload) \<Rightarrow> do {
           upd_stream st (stream_set_first_psh a);
           mux_handle_first_psh e resume st a payload } } }"

definition forward_payload :: "env \<Rightarrow> rc M \<Rightarrow> 32 word \<Rightarrow> buffer \<Rightarrow> rc M" where
  "forward_payload e resume sid data = do {
     st \<leftarrow> stream_find sid;
     case st of
       None \<Rightarrow> ret NGX_OK
     | Some p \<Rightarrow> do {
         s \<leftarrow> sget p (\<lambda>s. s);
         if \<not> stream_can_accept_payload s then ret NGX_OK
         else if stream_is_first_psh s then forward_first_psh e resume p data
         else mux_handle_client_payload e resume p data } }"

text \<open>One action: its return code, and whether the outcome is \<open>done\<close>.\<close>

definition session_action :: "env \<Rightarrow> rc M \<Rightarrow> action \<Rightarrow> (rc \<times> bool) M" where
  "session_action e resume a =
     (case act_type a of
        ACTION_QUEUE_CONTROL \<Rightarrow> do {
          r \<leftarrow> client_mux_queue_ref_frame e None (act_cmd a) (act_stream_id a) (act_data a);
          ret (r, False) }
      | ACTION_OPEN_STREAM \<Rightarrow> do {
          st \<leftarrow> stream_create_if_absent e (act_stream_id a);
          ret (if st = None then NGX_ERROR else NGX_OK, False) }
      | ACTION_FORWARD_CLIENT_PAYLOAD \<Rightarrow> do {
          r \<leftarrow> forward_payload e resume (act_stream_id a) (act_data a);
          ret (r, False) }
      | ACTION_CLIENT_FIN \<Rightarrow> do {
          st \<leftarrow> stream_find (act_stream_id a);
          (case st of None \<Rightarrow> ret () | Some p \<Rightarrow> mux_handle_client_fin e resume p);
          ret (NGX_OK, False) }
      | ACTION_CLIENT_ALERT \<Rightarrow> do {
          _ \<leftarrow> client_mux_drain e resume 0 False;
          finalize e resume;
          ret (NGX_OK, True) }
      | ACTION_PROTOCOL_ERROR \<Rightarrow> do {
          only_if (act_data a \<noteq> [])
            (do { _ \<leftarrow> client_mux_queue_error e None (act_data a); ret () });
          _ \<leftarrow> client_mux_drain e resume 0 False;
          finalize e resume;
          ret (NGX_OK, True) }
      | _ \<Rightarrow> ret (NGX_OK, False))"

primrec session_actions_run :: "env \<Rightarrow> rc M \<Rightarrow> action list \<Rightarrow> rc \<Rightarrow> (rc \<times> bool) M" where
  "session_actions_run e resume [] r = ret (r, False)"
| "session_actions_run e resume (a # as) r = do {
     (act_rc, done) \<leftarrow> session_action e resume a;
     let r' = (if r = NGX_OK then act_rc else r);
     if done then ret (r', True) else session_actions_run e resume as r' }"

section \<open>Client bytes\<close>

definition cache_peer_version :: "env \<Rightarrow> unit M" where
  "cache_peer_version e = modify (\<lambda>c.
     if sc_settings_received (c_session_core c)
     then c\<lparr>c_version_text := e_dec e (sc_peer_version (c_session_core c))\<rparr> else c)"

text \<open>
  The loop over the frames. A frame has at least a header, so the number of bytes bounds
  the rounds.
\<close>

primrec process_frames :: "env \<Rightarrow> rc M \<Rightarrow> nat \<Rightarrow> buffer \<Rightarrow> rc M" where
  "process_frames e resume 0 bs = do { modify (\<lambda>c. c\<lparr>c_remnant := bs\<rparr>); ret NGX_OK }"
| "process_frames e resume (Suc n) bs =
     (case parse_frame bs of
        P_again \<Rightarrow> do { modify (\<lambda>c. c\<lparr>c_remnant := bs\<rparr>); ret NGX_OK }
      | P_error \<Rightarrow> do { modify (\<lambda>c. c\<lparr>c_remnant := []\<rparr>); ret NGX_ERROR }
      | P_ok (f, consumed) \<Rightarrow> do {
          core \<leftarrow> gets c_session_core;
          (r, core', acts) \<leftarrow> ask (\<lambda>t. handle_frame (e_strlchr e) (\<lambda>i. e_alloc e (t + i)) core f);
          modify (\<lambda>c. c\<lparr>c_session_core := core'\<rparr>);
          (act_rc, done) \<leftarrow> session_actions_run e resume acts NGX_OK;
          if done then do { modify (\<lambda>c. c\<lparr>c_remnant := []\<rparr>); ret NGX_ERROR }
          else
            let r' = (if r = NGX_OK then act_rc else r) in
            if r' \<noteq> NGX_OK then do { modify (\<lambda>c. c\<lparr>c_remnant := []\<rparr>); ret r' }
            else do {
              only_if (f_cmd f = NGX_ANYTLS_CMD_SETTINGS) (cache_peer_version e);
              paused \<leftarrow> gets c_input_paused;
              if paused then do { modify (\<lambda>c. c\<lparr>c_remnant := drop consumed bs\<rparr>); ret NGX_OK }
              else process_frames e resume n (drop consumed bs) } })"

definition http_400_body :: buffer where
  "http_400_body = bytes_of ''<html>'' @ [13, 10]
     @ bytes_of ''<head><title>400 Bad Request</title></head>'' @ [13, 10]
     @ bytes_of ''<body>'' @ [13, 10]
     @ bytes_of ''<center><h1>400 Bad Request</h1></center>'' @ [13, 10]
     @ bytes_of ''<hr><center>nginx</center>'' @ [13, 10]
     @ bytes_of ''</body>'' @ [13, 10] @ bytes_of ''</html>'' @ [13, 10]"

definition http_400 :: "env \<Rightarrow> buffer" where
  "http_400 e = bytes_of ''HTTP/1.1 400 Bad Request'' @ [13, 10] @ bytes_of ''Server: nginx'' @ [13, 10]
     @ bytes_of ''Date: '' @ e_http_time e @ [13, 10]
     @ bytes_of ''Content-Type: text/html'' @ [13, 10]
     @ bytes_of ''Content-Length: '' @ e_dec e (length http_400_body) @ [13, 10]
     @ bytes_of ''Connection: close'' @ [13, 10, 13, 10] @ http_400_body"

definition send_http_400 :: "env \<Rightarrow> unit M" where
  "send_http_400 e = do {
     r \<leftarrow> ask (\<lambda>t. e_send e t (length (http_400 e)));
     case r of
       IO_bytes k \<Rightarrow> perform (Eff_client_send (take k (http_400 e)))
     | _ \<Rightarrow> ret () }"

text \<open>The authentication phase: \<open>Inl\<close> returns, \<open>Inr\<close> are the bytes after it.\<close>

definition process_auth :: "env \<Rightarrow> buffer \<Rightarrow> (rc + buffer) M" where
  "process_auth e data = do {
     step \<leftarrow> gets (\<lambda>c. fst (auth_process (cf_users (c_conf c)) c data));
     modify (\<lambda>c. snd (auth_process (cf_users (c_conf c)) c data));
     if as_result step = AUTH_MORE then ret (Inl NGX_OK)
     else do {
       timer_set \<leftarrow> ask (e_flag e);
       only_if timer_set (perform (Eff_disarm_timer Timer_client_read));
       if as_result step = AUTH_FALLBACK then do {
         modify (\<lambda>c. c\<lparr>c_auth_status := AUTH_STATUS_FALLBACK\<rparr>);
         fallback \<leftarrow> gets (\<lambda>c. cf_fallback (c_conf c));
         if \<not> fallback then do { send_http_400 e; ret (Inl NGX_ERROR) }
         else do {
           r \<leftarrow> fallback_start e (as_replay step);
           ret (Inl (if r \<noteq> NGX_OK then NGX_ERROR else NGX_OK)) } }
       else if as_result step \<noteq> AUTH_OK then do {
         modify (\<lambda>c. c\<lparr>c_auth_status := AUTH_STATUS_ERROR\<rparr>);
         ret (Inl NGX_ERROR) }
       else do {
         modify (\<lambda>c. c\<lparr>c_auth_status := AUTH_STATUS_OK\<rparr>);
         ret (Inr (drop (as_consumed step) data)) } } }"

definition process_client_bytes :: "env \<Rightarrow> rc M \<Rightarrow> buffer \<Rightarrow> rc M" where
  "process_client_bytes e resume data = do {
     authenticated \<leftarrow> gets ac_authenticated;
     x \<leftarrow> (if authenticated then ret (Inr data) else process_auth e data);
     case x of
       Inl r \<Rightarrow> ret r
     | Inr bs \<Rightarrow> if bs = [] then ret NGX_OK else process_frames e resume (length bs) bs }"

definition enable_client_read :: "env \<Rightarrow> rc M" where
  "enable_client_read e = do {
     modify (\<lambda>c. c\<lparr>c_client_read_blocked := False\<rparr>);
     r \<leftarrow> ask (e_rc e);
     if r \<noteq> NGX_OK then ret NGX_ERROR
     else do {
       waiting \<leftarrow> gets (\<lambda>c. c_remnant c \<noteq> []);
       only_if waiting (perform Eff_post_client_read);
       ret NGX_OK } }"

definition input_blocked :: "conn \<Rightarrow> bool" where
  "input_blocked c \<longleftrightarrow> c_blocked_input_streams c > 0"

text \<open>
  The body of \<open>ngx_anytls_client_input_resume\<close> over the processing of the remnant, and
  the function itself with its recursion unrolled.
\<close>

definition input_resume_with :: "env \<Rightarrow> (buffer \<Rightarrow> rc M) \<Rightarrow> rc M" where
  "input_resume_with e process = do {
     c \<leftarrow> gets (\<lambda>c. c);
     if c_closing c \<or> c_pending_input c > cf_max_pending_input (c_conf c) div 2 \<or> input_blocked c
     then ret NGX_OK
     else do {
       modify (\<lambda>c. c\<lparr>c_input_paused := False\<rparr>);
       if c_remnant c = [] then enable_client_read e
       else do {
         modify (\<lambda>c. c\<lparr>c_remnant := []\<rparr>);
         r \<leftarrow> process (c_remnant c);
         if r \<noteq> NGX_OK then ret r
         else do {
           paused \<leftarrow> gets c_input_paused;
           if paused then ret NGX_OK else enable_client_read e } } } }"

primrec client_input_resume :: "env \<Rightarrow> nat \<Rightarrow> rc M" where
  "client_input_resume e 0 = do { perform Eff_unreached; ret NGX_ERROR }"
| "client_input_resume e (Suc n) =
     input_resume_with e (process_client_bytes e (client_input_resume e n))"

section \<open>Events of the client connection\<close>

text \<open>
  The client socket is read to the end of the remnant in \<open>ac->read_buf\<close>; a read that could
  go past the allocated \<open>c_read_buf_cap\<close> bytes marks the trace with \<open>Eff_overflow\<close>.
  The loop over the reads: \<open>Some exhausted\<close> when it is left by \<open>break\<close>, \<open>None\<close> when
  the function returns in it. The loop budget bounds the rounds.
\<close>

primrec client_read_loop :: "env \<Rightarrow> rc M \<Rightarrow> nat \<Rightarrow> nat \<Rightarrow> bool option M" where
  "client_read_loop e resume 0 read_bytes = ret (Some True)"
| "client_read_loop e resume (Suc n) read_bytes = do {
     sz \<leftarrow> gets c_read_buf_size;
     fits \<leftarrow> gets (\<lambda>c. length (c_remnant c) + sz \<le> c_read_buf_cap c);
     only_if (\<not> fits) (perform Eff_overflow);
     r \<leftarrow> transport_read e sz;
     case r of
       Recv_again \<Rightarrow> ret (Some False)
     | Recv_eof \<Rightarrow> do {
         modify (\<lambda>c. c\<lparr>c_client_eof := True\<rparr>);
         finalize e resume;
         ret None }
     | Recv_error \<Rightarrow> do { finalize e resume; ret None }
     | Recv_bytes bs \<Rightarrow> do {
         modify (\<lambda>c. c\<lparr>c_received := c_received c + length bs\<rparr>);
         remnant \<leftarrow> gets c_remnant;
         modify (\<lambda>c. c\<lparr>c_remnant := []\<rparr>);
         r \<leftarrow> process_client_bytes e resume (remnant @ bs);
         state \<leftarrow> gets ac_state;
         if r \<noteq> NGX_OK then do {
           only_if (state \<noteq> CONN_FALLBACK) (finalize e resume);
           ret None }
         else if state = CONN_FALLBACK then ret None
         else do {
           blocked \<leftarrow> gets c_client_read_blocked;
           if blocked then ret None
           else if read_bytes + length bs \<ge> NGX_ANYTLS_CLIENT_READ_BUDGET_BYTES then ret (Some True)
           else client_read_loop e resume n (read_bytes + length bs) } } }"

text \<open>
  \<open>ngx_anytls_client_read_handler\<close> also serves the fallback connection; \<open>is_client\<close>
  tells which connection the event is for, \<open>timedout\<close> is its flag.
\<close>

definition client_read_handler :: "env \<Rightarrow> rc M \<Rightarrow> bool \<Rightarrow> bool \<Rightarrow> unit M" where
  "client_read_handler e resume is_client timedout = do {
     state \<leftarrow> gets ac_state;
     if timedout \<and> state = CONN_AUTH then do {
       modify (\<lambda>c. c\<lparr>c_auth_status := AUTH_STATUS_TIMEOUT\<rparr>);
       finalize e resume }
     else if state = CONN_FALLBACK then fallback_read e resume is_client
     else do {
       c \<leftarrow> gets (\<lambda>c. c);
       if c_input_paused c then do {
         r \<leftarrow> resume;
         only_if (r \<noteq> NGX_OK) (finalize e resume) }
       else if c_client_read_blocked c then ret ()
       else do {
         x \<leftarrow> client_read_loop e resume NGX_ANYTLS_CLIENT_READ_BUDGET_LOOPS 0;
         case x of
           None \<Rightarrow> ret ()
         | Some exhausted \<Rightarrow> do {
             blocked \<leftarrow> gets c_client_read_blocked;
             only_if (\<not> blocked) (do {
               _ \<leftarrow> ask (e_rc e);
               only_if exhausted (perform Eff_post_client_read_next) }) } } } }"

definition client_write_handler :: "env \<Rightarrow> rc M \<Rightarrow> bool \<Rightarrow> bool \<Rightarrow> unit M" where
  "client_write_handler e resume is_client timedout = do {
     modify (\<lambda>c. c\<lparr>c_write_pending := False\<rparr>);
     state \<leftarrow> gets ac_state;
     if state = CONN_FALLBACK then fallback_write e resume is_client timedout
     else do {
       (r, dr) \<leftarrow> client_mux_drain e resume 0 True;
       only_if (r = NGX_ERROR \<or> (case dr of None \<Rightarrow> False | Some d \<Rightarrow> dr_can_finalize d))
         (finalize e resume) } }"

section \<open>Set-up\<close>

definition conn_init :: "conf \<Rightarrow> conn" where
  "conn_init conf =
     \<lparr>ac_auth = [], ac_auth_padding_len = 0, ac_user_name = [], ac_auth_hash_matched = False,
      ac_authenticated = False, ac_state = CONN_AUTH,
      c_conf = conf, c_mem = (\<lambda>_. stream_zero), c_next = 0,
      c_table = ht_create (cf_max_streams conf),
      c_stream_list = [], c_ready_streams = [], c_blocked_upstream_reads = [], c_active_streams = 0,
      c_blocked_input_streams = 0, c_uot_streams = 0, c_control_out = [], c_data_out = [],
      c_sending = [], c_free_frames = 0, c_frames = 0, c_closing_streams = [], c_resumed_streams = 0,
      c_read_ready = [], c_write_ready = [], c_connect_pending = [], c_write_timer = False,
      c_unsent = Unsent_null, c_pending_output = 0, c_pending_input = 0, c_free_read_bufs = [],
      c_free_read_bufs_large = [], c_free_read_bufs_count = 0, c_free_pending_bufs = [],
      c_free_pending_bufs_count = 0,
      c_read_buf_size = min (cf_buffer_size conf)
        (NGX_ANYTLS_FRAME_HEADER_LEN + NGX_ANYTLS_MAX_FRAME_DATA),
      c_read_buf_cap = min (cf_buffer_size conf) (NGX_ANYTLS_FRAME_HEADER_LEN + NGX_ANYTLS_MAX_FRAME_DATA)
        + NGX_ANYTLS_FRAME_HEADER_LEN + NGX_ANYTLS_MAX_FRAME_DATA,
      c_remnant = [], c_session_core = session_core_init (cf_padding_md5 conf) (cf_padding_data conf),
      c_version_text = [], c_auth_status = AUTH_STATUS_UNSET, c_client_eof = False,
      c_client_read_blocked = False, c_input_paused = False, c_write_pending = False,
      c_output_pressure = False, c_closing = False, c_fallback = False, c_fallback_replay = None,
      c_fallback_client_buf = None, c_fallback_upstream_buf = None, c_fallback_state = tracker_zero,
      c_fallback_connected = False, c_upstream_states = None, c_received = 0, c_tick = 0,
      c_trace = []\<rparr>"

text \<open>
  The part of \<open>ngx_anytls_connection_init\<close> after the allocations have succeeded: the
  timer of the handshake, and a first read.
\<close>

definition connection_start :: "env \<Rightarrow> rc M \<Rightarrow> unit M" where
  "connection_start e resume = do {
     timeout \<leftarrow> gets (\<lambda>c. cf_handshake_timeout (c_conf c));
     only_if (timeout \<noteq> 0) (perform (Eff_arm_timer Timer_client_read));
     client_read_handler e resume True False }"

end
