(* ===== verification/Config.thy ===== *)
theory Config
  imports Padding Client_Handler
begin

text \<open>
  The configuration of a server block: \<open>src/src/ngx_stream_anytls_module.c\<close>. The setters of the
  directives fill a \<open>srv_conf\<close>, in which a value that is not set is \<open>None\<close> (the
  \<open>NGX_CONF_UNSET\<close> values of nginx); the merge with the enclosing block fills in the rest,
  checks the users and loads the padding scheme. A connection reads the result as a
  \<open>conf\<close>. The variables for the access log are those of
  \<open>src/src/ngx_anytls_variables.c\<close>.

  Parameters: \<open>alloc\<close> (does an allocation succeed), \<open>sha256\<close> of OpenSSL, and the parsers of
  nginx for sizes and times.
\<close>

abbreviation (input) "NGX_ANYTLS_MAX_USERS \<equiv> 64 :: nat"

section \<open>Directives\<close>

text \<open>The fields a directive names by its offset.\<close>

datatype size_field = BUFFER_SIZE | MAX_PENDING_OUTPUT | MAX_PENDING_INPUT | UOT_PENDING_BYTES

datatype num_field = MAX_STREAMS | MAX_UOT_STREAMS | UOT_PENDING_PACKETS

datatype msec_field = FALLBACK_CONNECT_TIMEOUT | UPSTREAM_CONNECT_TIMEOUT | HANDSHAKE_TIMEOUT
  | WRITE_TIMEOUT | UOT_IDLE_TIMEOUT | RESOLVER_TIMEOUT

datatype flag_field = ENABLED | REJECT_PLAIN_HTTP

record srv_conf =
  sv_flag :: "flag_field \<Rightarrow> bool option"
  sv_users :: "user list"
  sv_users_cap :: nat
  sv_padding :: padding_conf
  sv_fallback :: "buffer option"
  sv_fallback_proxy_protocol :: "bool option"
  sv_size :: "size_field \<Rightarrow> nat option"
  sv_num :: "num_field \<Rightarrow> nat option"
  sv_msec :: "msec_field \<Rightarrow> nat option"
  sv_resolver :: bool

datatype conf_error = CONF_ERROR | CONF_DUPLICATE | CONF_INVALID

definition create_srv_conf :: srv_conf where
  "create_srv_conf =
     \<lparr>sv_flag = (\<lambda>_. None), sv_users = [], sv_users_cap = 0,
      sv_padding = \<lparr>pc_file = None, pc_data = None, pc_md5 = []\<rparr>, sv_fallback = None,
      sv_fallback_proxy_protocol = None, sv_size = (\<lambda>_. None), sv_num = (\<lambda>_. None),
      sv_msec = (\<lambda>_. None), sv_resolver = False\<rparr>"

text \<open>
  \<open>ngx_conf_set_flag_slot\<close> and \<open>ngx_conf_set_msec_slot\<close> of nginx, as documented: a second
  occurrence and a value that does not parse are errors.
\<close>

definition set_flag :: "flag_field \<Rightarrow> bool option \<Rightarrow> srv_conf \<Rightarrow> conf_error + srv_conf" where
  "set_flag f v conf =
     (if sv_flag conf f \<noteq> None then Inl CONF_DUPLICATE
      else case v of None \<Rightarrow> Inl CONF_ERROR | Some b \<Rightarrow> Inr (conf\<lparr>sv_flag := (sv_flag conf)(f := Some b)\<rparr>))"

definition set_msec :: "msec_field \<Rightarrow> nat option \<Rightarrow> srv_conf \<Rightarrow> conf_error + srv_conf" where
  "set_msec f v conf =
     (if sv_msec conf f \<noteq> None then Inl CONF_DUPLICATE
      else case v of None \<Rightarrow> Inl CONF_INVALID | Some n \<Rightarrow> Inr (conf\<lparr>sv_msec := (sv_msec conf)(f := Some n)\<rparr>))"

definition anytls_user ::
  "(buffer \<Rightarrow> buffer) \<Rightarrow> bool \<Rightarrow> buffer \<Rightarrow> buffer \<Rightarrow> srv_conf \<Rightarrow> conf_error + srv_conf" where
  "anytls_user sha256 alloc name password conf =
     (let n = length (sv_users conf); cap = sv_users_cap conf;
          cap' = (if cap = 0 then 8 else if n = cap then cap * 2 else cap)
      in if name = [] then Inl CONF_ERROR
         else if password = [] then Inl CONF_ERROR
         else if n \<ge> NGX_ANYTLS_MAX_USERS then Inl CONF_ERROR
         else if cap' \<noteq> cap \<and> \<not> alloc then Inl CONF_ERROR
         else Inr (conf\<lparr>sv_users := sv_users conf @ [\<lparr>u_name = name, u_hash = sha256 password\<rparr>],
                        sv_users_cap := cap'\<rparr>))"

definition anytls_padding :: "buffer \<Rightarrow> srv_conf \<Rightarrow> conf_error + srv_conf" where
  "anytls_padding path conf =
     (if pc_file (sv_padding conf) \<noteq> None then Inl CONF_DUPLICATE
      else Inr (conf\<lparr>sv_padding := (sv_padding conf)\<lparr>pc_file := Some path\<rparr>\<rparr>))"

text \<open>\<open>compiles\<close>: the answer of \<open>ngx_stream_compile_complex_value\<close>.\<close>

definition anytls_fallback :: "bool \<Rightarrow> bool \<Rightarrow> buffer \<Rightarrow> srv_conf \<Rightarrow> conf_error + srv_conf" where
  "anytls_fallback alloc compiles target conf =
     (if sv_fallback conf \<noteq> None then Inl CONF_DUPLICATE
      else if \<not> alloc then Inl CONF_ERROR
      else if \<not> compiles then Inl CONF_ERROR
      else Inr (conf\<lparr>sv_fallback := Some target\<rparr>))"

definition anytls_fallback_proxy_protocol :: "buffer \<Rightarrow> srv_conf \<Rightarrow> conf_error + srv_conf" where
  "anytls_fallback_proxy_protocol value conf =
     (if sv_fallback_proxy_protocol conf \<noteq> None then Inl CONF_DUPLICATE
      else if value = bytes_of ''on'' then Inr (conf\<lparr>sv_fallback_proxy_protocol := Some True\<rparr>)
      else if value = bytes_of ''off'' then Inr (conf\<lparr>sv_fallback_proxy_protocol := Some False\<rparr>)
      else Inl CONF_ERROR)"

definition size_slot :: "(buffer \<Rightarrow> nat option) \<Rightarrow> size_field \<Rightarrow> buffer \<Rightarrow> srv_conf \<Rightarrow> conf_error + srv_conf" where
  "size_slot parse_size f value conf =
     (if sv_size conf f \<noteq> None then Inl CONF_DUPLICATE
      else case parse_size value of
             None \<Rightarrow> Inl CONF_INVALID
           | Some n \<Rightarrow> Inr (conf\<lparr>sv_size := (sv_size conf)(f := Some n)\<rparr>))"

definition num_slot :: "num_field \<Rightarrow> buffer \<Rightarrow> srv_conf \<Rightarrow> conf_error + srv_conf" where
  "num_slot f value conf =
     (if sv_num conf f \<noteq> None then Inl CONF_DUPLICATE
      else case ngx_atoi value of
             None \<Rightarrow> Inl CONF_INVALID
           | Some n \<Rightarrow> if n < 1 then Inl CONF_INVALID
                       else Inr (conf\<lparr>sv_num := (sv_num conf)(f := Some n)\<rparr>))"

section \<open>Merging\<close>

fun size_default :: "size_field \<Rightarrow> nat" where
  "size_default BUFFER_SIZE = 65535"
| "size_default MAX_PENDING_OUTPUT = 8 * 1024 * 1024"
| "size_default MAX_PENDING_INPUT = 8 * 1024 * 1024"
| "size_default UOT_PENDING_BYTES = 512 * 1024"

fun num_default :: "num_field \<Rightarrow> nat" where
  "num_default MAX_STREAMS = 1024"
| "num_default MAX_UOT_STREAMS = 64"
| "num_default UOT_PENDING_PACKETS = 256"

fun msec_default :: "msec_field \<Rightarrow> nat" where
  "msec_default FALLBACK_CONNECT_TIMEOUT = 60000"
| "msec_default UPSTREAM_CONNECT_TIMEOUT = 5000"
| "msec_default HANDSHAKE_TIMEOUT = 60000"
| "msec_default WRITE_TIMEOUT = 60000"
| "msec_default UOT_IDLE_TIMEOUT = 300000"
| "msec_default RESOLVER_TIMEOUT = 30000"

text \<open>The macros \<open>ngx_conf_merge_value\<close> and so on.\<close>

definition merge_value :: "'a option \<Rightarrow> 'a option \<Rightarrow> 'a \<Rightarrow> 'a option" where
  "merge_value conf prev def =
     (case conf of Some v \<Rightarrow> Some v | None \<Rightarrow> (case prev of Some v \<Rightarrow> Some v | None \<Rightarrow> Some def))"

definition merge_num :: "(num_field \<Rightarrow> nat option) \<Rightarrow> (num_field \<Rightarrow> nat option) \<Rightarrow> num_field \<Rightarrow> nat option" where
  "merge_num conf prev f =
     (case merge_value (conf f) (prev f) (num_default f) of
        None \<Rightarrow> None
      | Some n \<Rightarrow> Some (if f = MAX_STREAMS \<and> n > 65536 then 65536 else n))"

fun duplicate_users :: "user list \<Rightarrow> bool" where
  "duplicate_users [] = False"
| "duplicate_users (u # us) =
     (list_ex (\<lambda>v. u_hash u = u_hash v \<or> u_name u = u_name v) us \<or> duplicate_users us)"

text \<open>
  \<open>core_resolver\<close> and \<open>core_timeout\<close> are what the core module of the server block has.
\<close>

definition merge_srv_conf ::
  "(buffer \<Rightarrow> buffer) \<Rightarrow> (buffer \<Rightarrow> file_answer) \<Rightarrow> (nat \<Rightarrow> bool) \<Rightarrow> bool \<Rightarrow> nat option
    \<Rightarrow> srv_conf \<Rightarrow> srv_conf \<Rightarrow> conf_error + srv_conf" where
  "merge_srv_conf md5 fs alloc core_resolver core_timeout prev conf =
     (let enabled = merge_value (sv_flag conf ENABLED) (sv_flag prev ENABLED) False;
          padding = (if pc_file (sv_padding conf) = None \<and> pc_file (sv_padding prev) \<noteq> None
                     then sv_padding prev else sv_padding conf);
          conf1 = conf\<lparr>
            sv_flag := (\<lambda>f. case f of ENABLED \<Rightarrow> enabled
              | REJECT_PLAIN_HTTP \<Rightarrow> merge_value (sv_flag conf f) (sv_flag prev f) True),
            sv_fallback := (if sv_fallback conf = None then sv_fallback prev else sv_fallback conf),
            sv_fallback_proxy_protocol :=
              merge_value (sv_fallback_proxy_protocol conf) (sv_fallback_proxy_protocol prev) False,
            sv_size := (\<lambda>f. merge_value (sv_size conf f) (sv_size prev f) (size_default f)),
            sv_num := merge_num (sv_num conf) (sv_num prev),
            sv_msec := (\<lambda>f. merge_value (sv_msec conf f) (sv_msec prev f) (msec_default f))\<rparr>
      in if enabled = Some True \<and> (sv_users conf = [] \<or> duplicate_users (sv_users conf)) then Inl CONF_ERROR
         else case padding_load md5 fs alloc padding of (r, padding') \<Rightarrow>
           if r \<noteq> NGX_OK then Inl CONF_ERROR
           else
             let conf2 = conf1\<lparr>sv_padding := padding'\<rparr>
             in if enabled = Some True then
                  Inr (conf2\<lparr>sv_resolver := (sv_resolver conf \<or> sv_resolver prev \<or> core_resolver),
                    sv_msec := (sv_msec conf2)(RESOLVER_TIMEOUT :=
                      (if core_timeout \<noteq> None \<and> sv_msec conf2 RESOLVER_TIMEOUT = Some 30000
                       then core_timeout else sv_msec conf2 RESOLVER_TIMEOUT))\<rparr>)
                else Inr conf2)"

text \<open>What a connection sees of a merged configuration.\<close>

definition runtime_conf :: "srv_conf \<Rightarrow> conf" where
  "runtime_conf sv =
     \<lparr>cf_users = sv_users sv, cf_padding_data = the (pc_data (sv_padding sv)),
      cf_padding_md5 = pc_md5 (sv_padding sv), cf_fallback = (sv_fallback sv \<noteq> None),
      cf_fallback_proxy_protocol = the (sv_fallback_proxy_protocol sv),
      cf_fallback_connect_timeout = word_of_nat (the (sv_msec sv FALLBACK_CONNECT_TIMEOUT)),
      cf_upstream_connect_timeout = word_of_nat (the (sv_msec sv UPSTREAM_CONNECT_TIMEOUT)),
      cf_handshake_timeout = word_of_nat (the (sv_msec sv HANDSHAKE_TIMEOUT)),
      cf_buffer_size = the (sv_size sv BUFFER_SIZE),
      cf_max_streams = word_of_nat (the (sv_num sv MAX_STREAMS)),
      cf_max_uot_streams = the (sv_num sv MAX_UOT_STREAMS),
      cf_max_pending_output = the (sv_size sv MAX_PENDING_OUTPUT),
      cf_max_pending_input = the (sv_size sv MAX_PENDING_INPUT),
      cf_resolver = sv_resolver sv,
      cf_resolver_timeout = word_of_nat (the (sv_msec sv RESOLVER_TIMEOUT)),
      cf_write_timeout = word_of_nat (the (sv_msec sv WRITE_TIMEOUT)),
      cf_uot_idle_timeout = word_of_nat (the (sv_msec sv UOT_IDLE_TIMEOUT)),
      cf_uot_pending_packets = the (sv_num sv UOT_PENDING_PACKETS),
      cf_uot_pending_bytes = the (sv_size sv UOT_PENDING_BYTES)\<rparr>"

text \<open>
  \<open>ngx_stream_anytls_handler\<close>: \<open>Inl\<close> the code the session is finalized with, \<open>Inr\<close> the
  connection after its first read.
\<close>

definition anytls_handler :: "env \<Rightarrow> rc M \<Rightarrow> srv_conf \<Rightarrow> nat + conn" where
  "anytls_handler e resume sv =
     (if sv_flag sv ENABLED \<noteq> Some True then Inl 500
      else Inr (snd (run_state (connection_start e resume) (conn_init (runtime_conf sv)))))"

section \<open>Variables\<close>

text \<open>A session without the context of this module is \<open>None\<close>.\<close>

datatype var = Var_not_found | Var buffer

definition variable_str :: "(conn \<Rightarrow> buffer) \<Rightarrow> conn option \<Rightarrow> var" where
  "variable_str field ac =
     (case ac of
        None \<Rightarrow> Var_not_found
      | Some c \<Rightarrow> if field c = [] then Var_not_found else Var (field c))"

fun auth_value :: "auth_status \<Rightarrow> buffer" where
  "auth_value AUTH_STATUS_UNSET = []"
| "auth_value AUTH_STATUS_OK = bytes_of ''ok''"
| "auth_value AUTH_STATUS_FALLBACK = bytes_of ''fallback''"
| "auth_value AUTH_STATUS_TIMEOUT = bytes_of ''timeout''"
| "auth_value AUTH_STATUS_ERROR = bytes_of ''error''"

definition variable_auth :: "conn option \<Rightarrow> var" where
  "variable_auth ac =
     (case ac of
        None \<Rightarrow> Var_not_found
      | Some c \<Rightarrow> if c_auth_status c = AUTH_STATUS_UNSET then Var_not_found
                  else Var (auth_value (c_auth_status c)))"

section \<open>A server block\<close>

text \<open>The directives of a block, in the order of the file.\<close>

datatype directive =
    D_flag flag_field "bool option"
  | D_user bool buffer buffer
  | D_padding buffer
  | D_fallback bool bool buffer
  | D_fallback_proxy_protocol buffer
  | D_size size_field buffer
  | D_num num_field buffer
  | D_msec msec_field "nat option"

fun apply_directive ::
  "(buffer \<Rightarrow> buffer) \<Rightarrow> (buffer \<Rightarrow> nat option) \<Rightarrow> directive \<Rightarrow> srv_conf \<Rightarrow> conf_error + srv_conf" where
  "apply_directive sha256 parse_size (D_flag f v) = set_flag f v"
| "apply_directive sha256 parse_size (D_user alloc name password) = anytls_user sha256 alloc name password"
| "apply_directive sha256 parse_size (D_padding path) = anytls_padding path"
| "apply_directive sha256 parse_size (D_fallback alloc compiles target) = anytls_fallback alloc compiles target"
| "apply_directive sha256 parse_size (D_fallback_proxy_protocol v) = anytls_fallback_proxy_protocol v"
| "apply_directive sha256 parse_size (D_size f v) = size_slot parse_size f v"
| "apply_directive sha256 parse_size (D_num f v) = num_slot f v"
| "apply_directive sha256 parse_size (D_msec f v) = set_msec f v"

fun configure ::
  "(buffer \<Rightarrow> buffer) \<Rightarrow> (buffer \<Rightarrow> nat option) \<Rightarrow> directive list \<Rightarrow> srv_conf \<Rightarrow> conf_error + srv_conf" where
  "configure sha256 parse_size [] conf = Inr conf"
| "configure sha256 parse_size (d # ds) conf =
     (case apply_directive sha256 parse_size d conf of
        Inl x \<Rightarrow> Inl x
      | Inr conf' \<Rightarrow> configure sha256 parse_size ds conf')"

text \<open>What every sequence of directives keeps.\<close>

definition user_caps :: "nat set" where
  "user_caps = {0, 8, 16, 32, 64}"

definition wf_srv_conf :: "(buffer \<Rightarrow> buffer) \<Rightarrow> srv_conf \<Rightarrow> bool" where
  "wf_srv_conf sha256 conf \<longleftrightarrow>
     length (sv_users conf) \<le> sv_users_cap conf \<and> sv_users_cap conf \<in> user_caps
     \<and> (\<forall>u\<in>set (sv_users conf). u_name u \<noteq> [] \<and> (\<exists>password. password \<noteq> [] \<and> u_hash u = sha256 password))
     \<and> (\<forall>f n. sv_num conf f = Some n \<longrightarrow> 1 \<le> n) \<and> pc_data (sv_padding conf) = None"

lemma wf_create: "wf_srv_conf sha256 create_srv_conf"
  by (simp add: wf_srv_conf_def create_srv_conf_def user_caps_def)

lemma user_cap:
  "n \<le> cap \<Longrightarrow> cap \<in> user_caps \<Longrightarrow> n < 64 \<Longrightarrow>
     Suc n \<le> (if cap = 0 then 8 else if n = cap then cap * 2 else cap)
     \<and> (if cap = 0 then 8 else if n = cap then cap * 2 else cap) \<in> user_caps"
  by (auto simp: user_caps_def)

lemma wf_user:
  assumes "wf_srv_conf sha256 conf" "anytls_user sha256 alloc name password conf = Inr conf'"
  shows "wf_srv_conf sha256 conf'"
proof -
  let ?n = "length (sv_users conf)" and ?cap = "sv_users_cap conf"
  have conf': "name \<noteq> []" "password \<noteq> []" "?n < 64"
    "conf' = conf\<lparr>sv_users := sv_users conf @ [\<lparr>u_name = name, u_hash = sha256 password\<rparr>],
       sv_users_cap := (if ?cap = 0 then 8 else if ?n = ?cap then ?cap * 2 else ?cap)\<rparr>"
    using assms(2) unfolding anytls_user_def Let_def by (auto split: if_splits)
  then show ?thesis
    using user_cap [of ?n ?cap] assms(1) unfolding wf_srv_conf_def by auto
qed

lemma wf_directive:
  assumes "wf_srv_conf sha256 conf" "apply_directive sha256 parse_size d conf = Inr conf'"
  shows "wf_srv_conf sha256 conf'"
proof (cases d)
  case (D_user alloc name password)
  then show ?thesis using wf_user [OF assms(1)] assms(2) by simp
qed (use assms in \<open>auto simp: wf_srv_conf_def set_flag_def set_msec_def anytls_padding_def anytls_fallback_def
    anytls_fallback_proxy_protocol_def size_slot_def num_slot_def split: if_splits option.splits\<close>)

lemma wf_configure:
  "wf_srv_conf sha256 conf \<Longrightarrow> configure sha256 parse_size ds conf = Inr conf' \<Longrightarrow> wf_srv_conf sha256 conf'"
  by (induction ds arbitrary: conf) (auto split: sum.splits dest: wf_directive)

lemma duplicate_users_distinct:
  "\<not> duplicate_users us \<longleftrightarrow> distinct (map u_hash us) \<and> distinct (map u_name us)"
  by (induction us) (auto simp: list_ex_iff)

lemma merge_num_bounds:
  "merge_num conf prev f = Some n \<Longrightarrow> (\<And>n. conf f = Some n \<Longrightarrow> 1 \<le> n) \<Longrightarrow> (\<And>n. prev f = Some n \<Longrightarrow> 1 \<le> n)
    \<Longrightarrow> 1 \<le> n \<and> (f = MAX_STREAMS \<longrightarrow> n \<le> 65536)"
  by (cases f) (auto simp: merge_num_def merge_value_def split: option.splits if_splits)

text \<open>A successful merge of an enabled block.\<close>

lemma merge_enabled:
  assumes "merge_srv_conf md5 fs alloc core_resolver core_timeout prev conf = Inr sv"
    and "sv_flag sv ENABLED = Some True"
  shows "sv_users sv = sv_users conf \<and> sv_users conf \<noteq> [] \<and> \<not> duplicate_users (sv_users conf)
    \<and> sv_num sv = merge_num (sv_num conf) (sv_num prev)
    \<and> padding_load md5 fs alloc
        (if pc_file (sv_padding conf) = None \<and> pc_file (sv_padding prev) \<noteq> None
         then sv_padding prev else sv_padding conf) = (NGX_OK, sv_padding sv)"
  using assms by (auto simp: merge_srv_conf_def Let_def split: if_splits prod.splits)

lemma merge_num_Some: "\<exists>n. merge_num conf prev f = Some n"
  by (auto simp: merge_num_def merge_value_def split: option.splits)

lemma merged_users:
  assumes "\<And>d. length (sha256 d) = 32"
    and "configure sha256 parse_size ds create_srv_conf = Inr conf"
    and "merge_srv_conf md5 fs alloc core_resolver core_timeout prev conf = Inr sv"
    and "sv_flag sv ENABLED = Some True"
  shows "wf_users (sv_users sv) \<and> sv_users sv \<noteq> [] \<and> length (sv_users sv) \<le> NGX_ANYTLS_MAX_USERS
    \<and> distinct (map u_hash (sv_users sv)) \<and> distinct (map u_name (sv_users sv))
    \<and> [] \<notin> u_name ` set (sv_users sv)"
proof -
  have "wf_srv_conf sha256 conf" by (rule wf_configure [OF wf_create assms(2)])
  then have "length (sv_users conf) \<le> 64" "\<forall>u\<in>set (sv_users conf). u_name u \<noteq> [] \<and> length (u_hash u) = 32"
    using assms(1) by (auto simp: wf_srv_conf_def user_caps_def)
  then show ?thesis
    using merge_enabled [OF assms(3,4)] by (auto simp: wf_users_def list_all_iff duplicate_users_distinct)
qed

text \<open>
  C38: A server block that nginx accepts with AnyTLS enabled is usable: it has at least one and at
  most 64 users, with names, and with pairwise different names and password digests; between 1
  and 65536 streams; and a padding scheme that is valid and fits a frame. This holds for every
  sequence of directives in the block and in the enclosing one. (SHA-256 yields 32 bytes, and a
  file read as many as were asked for.)
\<close>

theorem config_sound:
  assumes "\<And>d. length (sha256 d) = 32"
    and "\<And>path n bytes. fa_read (fs path) n = Some bytes \<Longrightarrow> length bytes = n"
    and "configure sha256 parse_size ds create_srv_conf = Inr conf"
    and "configure sha256 parse_size outer create_srv_conf = Inr prev"
    and "merge_srv_conf md5 fs alloc core_resolver core_timeout prev conf = Inr sv"
    and "sv_flag sv ENABLED = Some True" and "cf = runtime_conf sv"
  shows "wf_users (cf_users cf) \<and> cf_users cf \<noteq> [] \<and> length (cf_users cf) \<le> NGX_ANYTLS_MAX_USERS
    \<and> distinct (map u_hash (cf_users cf)) \<and> distinct (map u_name (cf_users cf))
    \<and> [] \<notin> u_name ` set (cf_users cf)
    \<and> 1 \<le> cf_max_streams cf \<and> cf_max_streams cf \<le> 65536
    \<and> padding_validate (Some (cf_padding_data cf)) = NGX_OK
    \<and> length (cf_padding_data cf) \<le> NGX_ANYTLS_MAX_FRAME_DATA
    \<and> cf_padding_md5 cf = md5_hex md5 (cf_padding_data cf)"
proof -
  have wf: "wf_srv_conf sha256 conf" "wf_srv_conf sha256 prev"
    by (rule wf_configure [OF wf_create assms(3)], rule wf_configure [OF wf_create assms(4)])
  note m = merge_enabled [OF assms(5,6)]
  obtain n where n: "sv_num sv MAX_STREAMS = Some n" using m merge_num_Some by metis
  have "1 \<le> n \<and> n \<le> 65536"
    using merge_num_bounds [of "sv_num conf" "sv_num prev" MAX_STREAMS n] wf m n by (simp add: wf_srv_conf_def)
  then have "1 \<le> (word_of_nat n :: 64 word)" "(word_of_nat n :: 64 word) \<le> 65536"
    by (simp_all add: word_le_nat_alt unat_of_nat)
  moreover obtain d where "pc_data (sv_padding sv) = Some d" "padding_validate (Some d) = NGX_OK"
    "length d \<le> NGX_ANYTLS_MAX_FRAME_DATA" "pc_md5 (sv_padding sv) = md5_hex md5 d"
  proof -
    let ?p = "if pc_file (sv_padding conf) = None \<and> pc_file (sv_padding prev) \<noteq> None
      then sv_padding prev else sv_padding conf"
    have none: "pc_data ?p = None" using wf by (simp add: wf_srv_conf_def)
    have load: "padding_load md5 fs alloc ?p = (NGX_OK, sv_padding sv)" using m by blast
    from padding_load_ok [of ?p fs, OF none _ load] assms(2) that show ?thesis by blast
  qed
  ultimately show ?thesis
    using n merged_users [OF assms(1,3,5,6)] unfolding assms(7) runtime_conf_def by simp
qed

definition example_block :: "directive list" where
  "example_block =
     [D_flag ENABLED (Some True), D_user True (bytes_of ''alice'') (bytes_of ''secret''),
      D_padding (bytes_of ''padding.txt''), D_num MAX_STREAMS (bytes_of ''70000'')]"

definition example_sha256 :: "buffer \<Rightarrow> buffer" where
  "example_sha256 d = take 32 (d @ replicate 32 0)"

lemma example_sha256_length: "length (example_sha256 d) = 32"
  by (simp add: example_sha256_def)

lemma example_fs_reads: "fa_read (example_fs path) n = Some bytes \<Longrightarrow> length bytes = n"
  by (auto simp: example_fs_def split: if_splits)

lemma example_accepted:
  "\<exists>conf sv. configure example_sha256 ngx_atoi example_block create_srv_conf = Inr conf
     \<and> merge_srv_conf (\<lambda>d. d) example_fs (\<lambda>_. True) False None create_srv_conf conf = Inr sv
     \<and> sv_flag sv ENABLED = Some True
     \<and> sv_users sv = [\<lparr>u_name = bytes_of ''alice'', u_hash = example_sha256 (bytes_of ''secret'')\<rparr>]
     \<and> sv_num sv MAX_STREAMS = Some 65536"
proof -
  have pad: "padding_validate (Some (bytes_of ''stop=0'')) = NGX_OK"
    by (simp add: padding_validate_def bytes_of_def validate_loop.simps is_blank_def key_char_def)
  have num: "ngx_atoi (bytes_of ''70000'') = Some 70000"
    by (simp add: ngx_atoi_def bytes_of_def word_less_nat_alt)
  show ?thesis
    using pad num
    by (simp add: example_block_def create_srv_conf_def set_flag_def anytls_user_def anytls_padding_def num_slot_def
        merge_srv_conf_def Let_def merge_value_def merge_num_def padding_load_def example_fs_def bytes_of_def)
qed

theorem config_sound_witness:
  "\<exists>sv. sv_num sv MAX_STREAMS = Some 65536
     \<and> wf_users (cf_users (runtime_conf sv)) \<and> cf_max_streams (runtime_conf sv) \<le> 65536
     \<and> padding_validate (Some (cf_padding_data (runtime_conf sv))) = NGX_OK"
proof -
  obtain conf sv where r: "configure example_sha256 ngx_atoi example_block create_srv_conf = Inr conf"
    "merge_srv_conf (\<lambda>d. d) example_fs (\<lambda>_. True) False None create_srv_conf conf = Inr sv"
    "sv_flag sv ENABLED = Some True" "sv_num sv MAX_STREAMS = Some 65536"
    using example_accepted by blast
  have outer: "configure example_sha256 ngx_atoi [] create_srv_conf = Inr create_srv_conf" by simp
  show ?thesis
    using config_sound [OF example_sha256_length _ r(1) outer r(2,3) refl] example_fs_reads r(4) by blast
qed

text \<open>
  C39: With an accepted configuration the name a password hash is given is not a matter of the order
  of the users: the scan reports a name exactly when the user of that name has the client's hash.
\<close>

theorem auth_names_user:
  assumes "\<And>d. length (sha256 d) = 32"
    and "configure sha256 parse_size ds create_srv_conf = Inr conf"
    and "merge_srv_conf md5 fs alloc core_resolver core_timeout prev conf = Inr sv"
    and "sv_flag sv ENABLED = Some True" and "32 \<le> length auth"
  shows "auth_match (cf_users (runtime_conf sv)) auth old = (True, name)
    \<longleftrightarrow> (\<exists>u. u \<in> set (cf_users (runtime_conf sv)) \<and> u_hash u = take 32 auth \<and> u_name u = name)"
proof -
  note users = merged_users [OF assms(1-4)]
  have cf: "cf_users (runtime_conf sv) = sv_users sv" by (simp add: runtime_conf_def)
  have one: "u = v" if "u \<in> set (sv_users sv)" "v \<in> set (sv_users sv)" "u_hash u = u_hash v" for u v
    using users that by (auto simp: distinct_map dest: inj_onD)
  show ?thesis
  proof (cases "matching_users (sv_users sv) auth")
    case Nil
    then show ?thesis
      using users auth_match_eq [of "sv_users sv", OF _ assms(5)] unfolding cf
      by (auto simp: matching_users_def filter_empty_conv)
  next
    case (Cons u us)
    then have "u \<in> set (sv_users sv)" "u_hash u = take 32 auth"
      using filter_set [of "\<lambda>u. u_hash u = take 32 auth" "sv_users sv"] by (auto simp: matching_users_def)
    moreover have "auth_match (sv_users sv) auth old = (True, u_name u)"
      using users auth_match_eq [of "sv_users sv", OF _ assms(5)] Cons by simp
    ultimately show ?thesis
      using one unfolding cf by (metis prod.inject)
  qed
qed

theorem auth_names_user_witness:
  "\<exists>sv. auth_match (cf_users (runtime_conf sv)) (example_sha256 (bytes_of ''secret'')) [] = (True, bytes_of ''alice'')"
proof -
  obtain conf sv where r: "configure example_sha256 ngx_atoi example_block create_srv_conf = Inr conf"
    "merge_srv_conf (\<lambda>d. d) example_fs (\<lambda>_. True) False None create_srv_conf conf = Inr sv"
    "sv_flag sv ENABLED = Some True"
    "sv_users sv = [\<lparr>u_name = bytes_of ''alice'', u_hash = example_sha256 (bytes_of ''secret'')\<rparr>]"
    using example_accepted by blast
  have "32 \<le> length (example_sha256 (bytes_of ''secret''))" by (simp add: example_sha256_length)
  from auth_names_user [OF example_sha256_length r(1-3) this, of "[]" "bytes_of ''alice''"] r(4)
  have "auth_match (cf_users (runtime_conf sv)) (example_sha256 (bytes_of ''secret'')) [] = (True, bytes_of ''alice'')"
    by (simp add: runtime_conf_def example_sha256_length)
  then show ?thesis by blast
qed

end
