(* ===== verification/Reject_Http.thy ===== *)
theory Reject_Http
  imports Prelude "HOL-Library.Code_Target_Numeral"
begin

text \<open>
  Plain HTTP on a TLS port: \<open>src/src/ngx_anytls_reject_plain_http.c\<close>. The handler peeks at the
  first bytes of a connection. A TLS client goes on to the handshake; a request that nginx would
  understand gets the answer nginx gives on a TLS port, any other text a plain 400.

  The classifier walks over the peeked bytes with pointers; each of its loops is a function of
  the bytes from the pointer on.
\<close>

abbreviation (input) "REJECT_PEEK \<equiv> 32768 :: nat"
abbreviation (input) "REJECT_MIN_PEEK \<equiv> 7 :: nat"

section \<open>The classifier\<close>

text \<open>The method token: \<open>Inr\<close> its length when a space ends it.\<close>

fun scan_method :: "buffer \<Rightarrow> nat \<Rightarrow> rc + nat" where
  "scan_method [] n = Inl NGX_AGAIN"
| "scan_method (c # cs) n =
     (if c = 32 then Inr n
      else if c < 65 \<or> c > 90 then Inl NGX_ERROR
      else scan_method cs (Suc n))"

definition known_methods :: "buffer list" where
  "known_methods = map bytes_of [''GET'', ''POST'', ''PUT'', ''DELETE'', ''OPTIONS'', ''PATCH'']"

definition refused_methods :: "buffer list" where
  "refused_methods = map bytes_of [''CONNECT'', ''TRACE'']"

text \<open>The end of the request line: the number of bytes up to and including the line end.\<close>

fun find_req_end :: "buffer \<Rightarrow> nat option" where
  "find_req_end (a # b # cs) =
     (if a = 13 \<and> b = 10 then Some 2
      else if a = 10 then Some 1
      else map_option Suc (find_req_end (b # cs)))"
| "find_req_end _ = None"

fun prefix_len :: "buffer \<Rightarrow> buffer \<Rightarrow> nat" where
  "prefix_len (a # as) (b # bs) = (if a = b then Suc (prefix_len as bs) else 0)"
| "prefix_len _ _ = 0"

text \<open>
  A request line that is not complete; \<open>wait\<close> is what to answer when more bytes are needed.
\<close>

definition partial_version :: "rc \<Rightarrow> buffer \<Rightarrow> rc" where
  "partial_version wait v =
     (let vlen = length v; m = prefix_len v (bytes_of ''HTTP/'')
      in if vlen = 0 then wait
         else if m = vlen \<and> vlen < 5 then wait
         else if m = 5 then wait
         else NGX_ERROR)"

fun partial_line :: "rc \<Rightarrow> buffer \<Rightarrow> rc" where
  "partial_line wait [] = wait"
| "partial_line wait (c # cs) =
     (if c = 32 then partial_version wait cs
      else if c \<le> 31 \<or> c = 127 then NGX_ERROR
      else partial_line wait cs)"

fun occurs :: "buffer \<Rightarrow> buffer \<Rightarrow> bool" where
  "occurs pat [] = False"
| "occurs pat (c # cs) = (take 8 (c # cs) = pat \<or> occurs pat cs)"

text \<open>The header lines: a line ends at the first CRLF, the headers at an empty line.\<close>

fun find_crlf :: "buffer \<Rightarrow> nat option" where
  "find_crlf (a # b # cs) =
     (if a = 13 \<and> b = 10 then Some 0 else map_option Suc (find_crlf (b # cs)))"
| "find_crlf _ = None"

definition host_header :: "buffer \<Rightarrow> bool" where
  "host_header line \<longleftrightarrow> length line > 4
     \<and> (line ! 0 = 72 \<or> line ! 0 = 104) \<and> (line ! 1 = 79 \<or> line ! 1 = 111)
     \<and> (line ! 2 = 83 \<or> line ! 2 = 115) \<and> (line ! 3 = 84 \<or> line ! 3 = 116) \<and> line ! 4 = 58"

function header_loop :: "rc \<Rightarrow> bool \<Rightarrow> buffer \<Rightarrow> rc + bool" where
  "header_loop wait saw_host bs =
     (case find_crlf bs of
        None \<Rightarrow> Inl wait
      | Some n \<Rightarrow>
          let saw = (saw_host \<or> host_header (take n bs))
          in if n = 0 then Inr saw else header_loop wait saw (drop (n + 2) bs))"
  by pat_completeness auto

termination
proof (relation "measure (\<lambda>(_, _, bs). length bs)")
  fix bs :: buffer and n
  assume "find_crlf bs = Some n"
  then have "n + 2 \<le> length bs"
    by (induction bs arbitrary: n rule: find_crlf.induct) (auto split: if_splits)
  then show "((wait, saw, drop (n + 2) bs), (wait, saw_host, bs)) \<in> measure (\<lambda>(_, _, bs). length bs)"
    for wait saw saw_host by simp
qed simp

declare header_loop.simps [simp del]

text \<open>After the method: \<open>line\<close> are the bytes behind the space at offset \<open>mlen\<close>.\<close>

definition request_line :: "buffer \<Rightarrow> nat \<Rightarrow> bool \<Rightarrow> rc" where
  "request_line p mlen not_allowed =
     (let line = drop (Suc mlen) p;
          wait = (if length p \<ge> REJECT_PEEK then NGX_ERROR else NGX_AGAIN)
      in case find_req_end line of
           None \<Rightarrow> partial_line wait line
         | Some n \<Rightarrow>
             let rl_end = Suc mlen + n;
                 http11 = occurs (bytes_of ''HTTP/1.1'') (take rl_end p);
                 http10 = occurs (bytes_of ''HTTP/1.0'') (take rl_end p)
             in if rl_end \<ge> length p then (if \<not> http11 \<and> \<not> http10 then NGX_ERROR else wait)
                else case header_loop wait False (drop rl_end p) of
                       Inl r \<Rightarrow> r
                     | Inr saw_host \<Rightarrow>
                         if (http11 \<and> saw_host) \<or> http10
                         then (if not_allowed then NGX_BUSY else NGX_OK)
                         else NGX_ERROR)"

definition is_http :: "buffer \<Rightarrow> rc" where
  "is_http p =
     (if length p < REJECT_MIN_PEEK then NGX_AGAIN
      else case scan_method p 0 of
             Inl r \<Rightarrow> r
           | Inr mlen \<Rightarrow>
               if mlen > 12 then NGX_ERROR
               else if take mlen p \<in> set known_methods then
                 (if Suc mlen \<ge> length p then NGX_AGAIN
                  else if p ! Suc mlen = 32 \<or> p ! Suc mlen = 13 \<or> p ! Suc mlen = 10 then NGX_ERROR
                  else request_line p mlen False)
               else if take mlen p \<in> set refused_methods then request_line p mlen True
               else NGX_ERROR)"

section \<open>The handler\<close>

abbreviation (input) "NGX_STREAM_BAD_REQUEST \<equiv> 400 :: nat"
abbreviation (input) "NGX_STREAM_INTERNAL_SERVER_ERROR \<equiv> 500 :: nat"
abbreviation (input) "REJECT_TIMEOUT \<equiv> 60000 :: nat"

definition crlf :: buffer where
  "crlf = [13, 10]"

text \<open>
  What the handler asks nginx and the system, and what it does. \<open>dec\<close> is the decimal text of
  \<open>ngx_sprintf\<close>, \<open>time\<close> the cached HTTP time.
\<close>

datatype peek = Peek_again | Peek_error | Peek buffer

record reject_in =
  ri_enabled :: bool
  ri_reject :: bool
  ri_tcp :: bool
  ri_ssl :: bool
  ri_timedout :: bool
  ri_peek :: peek
  ri_timer_set :: bool
  ri_arm :: rc
  ri_recv :: "int list"

datatype reject_effect =
    Rej_finalize nat
  | Rej_add_timer nat
  | Rej_del_timer
  | Rej_clear_ready
  | Rej_send buffer
  | Rej_drained int

text \<open>The answers of \<open>recv\<close> up to the first that is not positive are added up.\<close>

fun drain :: "int list \<Rightarrow> int \<Rightarrow> int" where
  "drain [] drained = drained"
| "drain (d # ds) drained = (if d \<le> 0 then drained else drain ds (drained + d))"

definition page :: "(nat \<Rightarrow> buffer) \<Rightarrow> buffer \<Rightarrow> buffer \<Rightarrow> buffer \<Rightarrow> buffer" where
  "page dec time status body =
     bytes_of ''HTTP/1.1 '' @ status @ crlf
     @ bytes_of ''Server: nginx'' @ crlf
     @ bytes_of ''Date: '' @ time @ crlf
     @ bytes_of ''Content-Type: text/html'' @ crlf
     @ bytes_of ''Content-Length: '' @ dec (length body) @ crlf
     @ bytes_of ''Connection: close'' @ crlf @ crlf @ body"

definition send_page ::
  "(nat \<Rightarrow> buffer) \<Rightarrow> buffer \<Rightarrow> reject_in \<Rightarrow> buffer \<Rightarrow> buffer \<Rightarrow> reject_effect list" where
  "send_page dec time ri status body =
     [Rej_send (page dec time status body), Rej_drained (drain (ri_recv ri) 0),
      Rej_finalize NGX_STREAM_BAD_REQUEST]"

definition plain_http_400_body :: buffer where
  "plain_http_400_body = bytes_of ''<html>'' @ crlf
     @ bytes_of ''<head><title>400 The plain HTTP request was sent to HTTPS port</title></head>'' @ crlf
     @ bytes_of ''<body>'' @ crlf
     @ bytes_of ''<center><h1>400 Bad Request</h1></center>'' @ crlf
     @ bytes_of ''<center>The plain HTTP request was sent to HTTPS port</center>'' @ crlf
     @ bytes_of ''<hr><center>nginx</center>'' @ crlf
     @ bytes_of ''</body>'' @ crlf @ bytes_of ''</html>'' @ crlf"

definition not_allowed_body :: buffer where
  "not_allowed_body = bytes_of ''<html>'' @ crlf
     @ bytes_of ''<head><title>405 Not Allowed</title></head>'' @ crlf
     @ bytes_of ''<body>'' @ crlf
     @ bytes_of ''<center><h1>405 Not Allowed</h1></center>'' @ crlf
     @ bytes_of ''<hr><center>nginx</center>'' @ crlf
     @ bytes_of ''</body>'' @ crlf @ bytes_of ''</html>'' @ crlf"

definition default_400_body :: buffer where
  "default_400_body = bytes_of ''<html>'' @ crlf
     @ bytes_of ''<head><title>400 Bad Request</title></head>'' @ crlf
     @ bytes_of ''<body>'' @ crlf
     @ bytes_of ''<center><h1>400 Bad Request</h1></center>'' @ crlf
     @ bytes_of ''<hr><center>nginx</center>'' @ crlf
     @ bytes_of ''</body>'' @ crlf @ bytes_of ''</html>'' @ crlf"

definition bad_request :: buffer where
  "bad_request = bytes_of ''400 Bad Request''"

definition not_allowed_status :: buffer where
  "not_allowed_status = bytes_of ''405 Not Allowed''"

text \<open>Wait for more bytes: the same code after \<open>EAGAIN\<close> and after a verdict of \<open>NGX_AGAIN\<close>.\<close>

definition wait_more :: "reject_in \<Rightarrow> rc \<times> reject_effect list" where
  "wait_more ri =
     (if ri_arm ri \<noteq> NGX_OK
      then (NGX_DONE, [Rej_clear_ready, Rej_add_timer REJECT_TIMEOUT, Rej_finalize NGX_STREAM_INTERNAL_SERVER_ERROR])
      else (NGX_AGAIN, [Rej_clear_ready, Rej_add_timer REJECT_TIMEOUT]))"

definition reject_handler :: "(nat \<Rightarrow> buffer) \<Rightarrow> buffer \<Rightarrow> reject_in \<Rightarrow> rc \<times> reject_effect list" where
  "reject_handler dec time ri =
     (if \<not> ri_enabled ri \<or> \<not> ri_reject ri then (NGX_DECLINED, [])
      else if \<not> ri_tcp ri then (NGX_DECLINED, [])
      else if \<not> ri_ssl ri then (NGX_DECLINED, [])
      else if ri_timedout ri then (NGX_DONE, [Rej_finalize NGX_STREAM_BAD_REQUEST])
      else case ri_peek ri of
             Peek_again \<Rightarrow> wait_more ri
           | Peek_error \<Rightarrow> (NGX_DONE, [Rej_finalize NGX_STREAM_BAD_REQUEST])
           | Peek [] \<Rightarrow> (NGX_DONE, [Rej_finalize NGX_STREAM_BAD_REQUEST])
           | Peek (b # bs) \<Rightarrow>
               if b = 22 \<or> b AND 128 \<noteq> 0
               then (NGX_DECLINED, if ri_timer_set ri then [Rej_del_timer] else [])
               else
                 let http = is_http (b # bs) in
                 if http = NGX_AGAIN then wait_more ri
                 else if http = NGX_OK then (NGX_DONE, send_page dec time ri bad_request plain_http_400_body)
                 else if http = NGX_BUSY then (NGX_DONE, send_page dec time ri not_allowed_status not_allowed_body)
                 else (NGX_DONE, send_page dec time ri bad_request default_400_body))"

section \<open>Scanning\<close>

definition upper :: "byte \<Rightarrow> bool" where
  "upper b \<longleftrightarrow> \<not> (b < 65 \<or> b > 90)"

lemma scan_method_step: "c \<noteq> 32 \<Longrightarrow>
    scan_method (c # cs) n = (if upper c then scan_method cs (Suc n) else Inl NGX_ERROR)"
  by (auto simp: upper_def)

lemma scan_method_token: "list_all upper m \<Longrightarrow> scan_method (m @ 32 # rest) n = Inr (n + length m)"
  by (induction m arbitrary: n) (auto simp: upper_def)

lemma scan_method_okE:
  assumes "scan_method p n = Inr k"
  shows "\<exists>m rest. p = m @ 32 # rest \<and> list_all upper m \<and> k = n + length m"
  using assms
proof (induction p arbitrary: n)
  case (Cons c cs)
  show ?case
  proof (cases "c = 32")
    case True
    then show ?thesis using Cons.prems by (intro exI [of _ "[]"] exI [of _ cs]) simp
  next
    case False
    with Cons.prems have "upper c" "scan_method cs (Suc n) = Inr k"
      by (simp_all add: scan_method_step upper_def split: if_splits)
    with Cons.IH obtain m rest where "cs = m @ 32 # rest" "list_all upper m" "k = Suc n + length m" by blast
    with \<open>upper c\<close> show ?thesis by (intro exI [of _ "c # m"] exI [of _ rest]) simp
  qed
qed simp

lemma scan_method_again: "scan_method p n = Inl NGX_AGAIN \<longleftrightarrow> list_all upper p"
proof (induction p arbitrary: n)
  case (Cons c cs)
  then show ?case by (cases "c = 32") (simp_all add: scan_method_step upper_def)
qed simp

lemma scan_method_rc: "scan_method p n = Inl r \<Longrightarrow> r = NGX_AGAIN \<or> r = NGX_ERROR"
  by (induction p n rule: scan_method.induct) (auto split: if_splits)

text \<open>The request line ends at the first LF; a CR before it belongs to the line end.\<close>

definition line_end :: "buffer \<Rightarrow> buffer \<Rightarrow> bool" where
  "line_end line eol \<longleftrightarrow> 10 \<notin> set line \<and> (eol = crlf \<or> eol = [10] \<and> (line = [] \<or> last line \<noteq> 13))"

lemma find_req_end_line:
  "line_end line eol \<Longrightarrow> (eol = [10] \<Longrightarrow> rest \<noteq> []) \<Longrightarrow>
     find_req_end (line @ eol @ rest) = Some (length line + length eol)"
proof (induction line)
  case Nil
  then show ?case by (cases rest) (auto simp: line_end_def crlf_def)
next
  case (Cons c line)
  have "line_end line eol" using Cons.prems(1) by (auto simp: line_end_def split: if_splits)
  with Cons have IH: "find_req_end (line @ eol @ rest) = Some (length line + length eol)" by blast
  show ?case
  proof (cases "line @ eol @ rest")
    case Nil
    then show ?thesis using Cons.prems by (simp add: line_end_def crlf_def)
  next
    case (Cons d ds)
    moreover have "c \<noteq> 10" "\<not> (c = 13 \<and> d = 10)"
      using Cons.prems(1) local.Cons by (cases line; auto simp: line_end_def crlf_def)+
    ultimately show ?thesis using IH by auto
  qed
qed

lemma find_req_end_okE:
  assumes "find_req_end l = Some n"
  shows "\<exists>line eol rest. l = line @ eol @ rest \<and> line_end line eol \<and> n = length line + length eol"
  using assms
proof (induction l arbitrary: n rule: find_req_end.induct)
  case (1 a b cs)
  consider "a = 13" "b = 10" | "a = 10" | "a \<noteq> 10" "\<not> (a = 13 \<and> b = 10)" by blast
  then show ?case
  proof cases
    case 1
    then show ?thesis
      using "1.prems" by (intro exI [of _ "[]"] exI [of _ crlf] exI [of _ cs]) (simp add: line_end_def crlf_def)
  next
    case 2
    then show ?thesis
      using "1.prems" by (intro exI [of _ "[]"] exI [of _ "[10]"] exI [of _ "b # cs"]) (simp add: line_end_def)
  next
    case 3
    with "1.prems" obtain m where "find_req_end (b # cs) = Some m" "n = Suc m" by (auto split: if_splits)
    with "1.IH" 3 obtain line eol rest where *: "b # cs = line @ eol @ rest" "line_end line eol"
      "n = Suc (length line + length eol)" by blast
    moreover have "line_end (a # line) eol"
      using 3 * by (cases line) (auto simp: line_end_def crlf_def)
    ultimately show ?thesis by (intro exI [of _ "a # line"] exI [of _ eol] exI [of _ rest]) simp
  qed
qed auto

text \<open>A header line ends at the first CRLF.\<close>

definition no_crlf :: "buffer \<Rightarrow> bool" where
  "no_crlf h \<longleftrightarrow> \<not> (\<exists>u v. h = u @ crlf @ v)"

lemma no_crlf_Nil [simp]: "no_crlf []"
  by (simp add: no_crlf_def crlf_def)

lemma no_crlf_Cons: "no_crlf (c # h) \<longleftrightarrow> no_crlf h \<and> \<not> (c = 13 \<and> h \<noteq> [] \<and> hd h = 10)"
  unfolding no_crlf_def crlf_def
  by (cases h) (auto simp: Cons_eq_append_conv append_eq_Cons_conv)

lemma find_crlf_line: "no_crlf h \<Longrightarrow> find_crlf (h @ crlf @ rest) = Some (length h)"
proof (induction h)
  case (Cons c h)
  then show ?case by (cases h) (auto simp: no_crlf_Cons crlf_def)
qed (simp add: crlf_def)

lemma find_crlf_okE:
  assumes "find_crlf l = Some n"
  shows "\<exists>h rest. l = h @ crlf @ rest \<and> no_crlf h \<and> n = length h"
  using assms
proof (induction l arbitrary: n rule: find_crlf.induct)
  case (1 a b cs)
  show ?case
  proof (cases "a = 13 \<and> b = 10")
    case True
    then show ?thesis using "1.prems" by (intro exI [of _ "[]"] exI [of _ cs]) (simp add: crlf_def)
  next
    case False
    with "1.prems" obtain m where "find_crlf (b # cs) = Some m" "n = Suc m" by (auto split: if_splits)
    with "1.IH" False obtain h rest where *: "b # cs = h @ crlf @ rest" "no_crlf h" "n = Suc (length h)" by blast
    moreover have "no_crlf (a # h)" using False * by (cases h) (auto simp: no_crlf_Cons)
    ultimately show ?thesis by (intro exI [of _ "a # h"] exI [of _ rest]) simp
  qed
qed auto

definition header_lines :: "buffer list \<Rightarrow> buffer" where
  "header_lines hs = concat (map (\<lambda>h. h @ crlf) hs)"

lemma header_lines_simps [simp]: "header_lines [] = []" "header_lines (h # hs) = h @ crlf @ header_lines hs"
  by (simp_all add: header_lines_def)

lemma header_loop_lines:
  "\<forall>h\<in>set hs. h \<noteq> [] \<and> no_crlf h \<Longrightarrow>
     header_loop w saw (header_lines hs @ crlf @ rest) = Inr (saw \<or> (\<exists>h\<in>set hs. host_header h))"
proof (induction hs arbitrary: saw)
  case Nil
  then show ?case
    using find_crlf_line [of "[]" rest] by (simp add: header_loop.simps host_header_def)
next
  case (Cons h hs)
  then show ?case
    using find_crlf_line [of h "header_lines hs @ crlf @ rest"]
    by (simp add: header_loop.simps [of w saw] crlf_def)
qed

lemma header_loop_okE:
  assumes "header_loop w saw l = Inr b"
  shows "\<exists>hs rest. l = header_lines hs @ crlf @ rest \<and> (\<forall>h\<in>set hs. h \<noteq> [] \<and> no_crlf h)
    \<and> b = (saw \<or> (\<exists>h\<in>set hs. host_header h))"
  using assms
proof (induction w saw l rule: header_loop.induct)
  case (1 w saw l)
  from "1.prems" obtain n where n: "find_crlf l = Some n"
    by (subst (asm) header_loop.simps) (auto split: option.splits)
  from find_crlf_okE [OF n] obtain h rest where h: "l = h @ crlf @ rest" "no_crlf h" "n = length h" by blast
  show ?case
  proof (cases "h = []")
    case True
    then have "b = saw" using "1.prems" n h
      by (subst (asm) header_loop.simps) (simp add: host_header_def)
    then show ?thesis using True h by (intro exI [of _ "[]"] exI [of _ rest]) simp
  next
    case False
    then have "header_loop w (saw \<or> host_header h) rest = Inr b"
      using "1.prems" n h by (subst (asm) header_loop.simps) (simp add: crlf_def)
    with "1.IH" [OF n refl] False h obtain hs rest' where "rest = header_lines hs @ crlf @ rest'"
      "\<forall>h\<in>set hs. h \<noteq> [] \<and> no_crlf h" "b = ((saw \<or> host_header h) \<or> (\<exists>h\<in>set hs. host_header h))"
      by (auto simp: crlf_def)
    then show ?thesis using False h by (intro exI [of _ "h # hs"] exI [of _ rest']) auto
  qed
qed

lemma occurs_iff: "length pat = 8 \<Longrightarrow> occurs pat bs \<longleftrightarrow> (\<exists>u v. bs = u @ pat @ v)"
proof (induction bs)
  case (Cons c cs)
  have "take 8 (c # cs) = pat \<longleftrightarrow> (\<exists>v. c # cs = pat @ v)"
    using Cons.prems by (metis append_eq_conv_conj)
  then show ?case
    using Cons by (auto simp: Cons_eq_append_conv)
qed auto

section \<open>What the classifier accepts\<close>

text \<open>
  The reference: a method, a space, the rest of the request line, header lines that end with CRLF,
  and an empty line. The version may stand anywhere in the request line.
\<close>

definition contains :: "buffer \<Rightarrow> buffer \<Rightarrow> bool" where
  "contains pat bs \<longleftrightarrow> (\<exists>u v. bs = u @ pat @ v)"

definition http_request :: "buffer list \<Rightarrow> buffer \<Rightarrow> buffer \<Rightarrow> bool" where
  "http_request methods line p \<longleftrightarrow>
     (\<exists>m eol hs rest. m \<in> set methods \<and> p = m @ [32] @ line @ eol @ header_lines hs @ crlf @ rest
        \<and> line_end line eol \<and> (\<forall>h\<in>set hs. h \<noteq> [] \<and> no_crlf h)
        \<and> (contains (bytes_of ''HTTP/1.1'') (m @ [32] @ line @ eol) \<and> (\<exists>h\<in>set hs. host_header h)
           \<or> contains (bytes_of ''HTTP/1.0'') (m @ [32] @ line @ eol)))"

lemma header_loop_wait: "header_loop w saw bs = Inl r \<Longrightarrow> r = w"
proof (induction w saw bs rule: header_loop.induct)
  case (1 w saw bs)
  from "1.prems" show ?case
    by (subst (asm) header_loop.simps) (use "1.IH" in \<open>auto simp: Let_def split: option.splits if_splits\<close>)
qed

lemma partial_line_rc: "partial_line w l = w \<or> partial_line w l = NGX_ERROR"
  by (induction w l rule: partial_line.induct) (auto simp: partial_version_def Let_def)

text \<open>The request line is complete, and so are the headers.\<close>

lemma request_line_full:
  assumes "line_end line eol" "\<forall>h\<in>set hs. h \<noteq> [] \<and> no_crlf h"
  shows "request_line (m @ [32] @ line @ eol @ header_lines hs @ crlf @ rest) (length m) na =
    (if contains (bytes_of ''HTTP/1.1'') (m @ [32] @ line @ eol) \<and> (\<exists>h\<in>set hs. host_header h)
        \<or> contains (bytes_of ''HTTP/1.0'') (m @ [32] @ line @ eol)
     then if na then NGX_BUSY else NGX_OK else NGX_ERROR)"
proof -
  let ?more = "header_lines hs @ crlf @ rest"
  have "find_req_end (line @ eol @ ?more) = Some (length line + length eol)"
    using assms(1) by (intro find_req_end_line) (simp_all add: crlf_def)
  moreover have "\<not> Suc (length m) + (length line + length eol) \<ge> length (m @ [32] @ line @ eol @ ?more)"
    by (simp add: crlf_def)
  moreover have "take (Suc (length m) + (length line + length eol)) (m @ [32] @ line @ eol @ ?more) = m @ [32] @ line @ eol"
    "drop (Suc (length m) + (length line + length eol)) (m @ [32] @ line @ eol @ ?more) = ?more"
    "drop (Suc (length m)) (m @ [32] @ line @ eol @ ?more) = line @ eol @ ?more"
    by simp_all
  ultimately show ?thesis
    unfolding request_line_def Let_def
    by (simp only: option.case header_loop_lines [OF assms(2)] sum.case if_False)
      (simp add: occurs_iff contains_def)
qed

lemma request_line_okE:
  assumes "request_line (m @ 32 # bs) (length m) na \<notin> {NGX_ERROR, NGX_AGAIN}"
  shows "\<exists>line eol hs rest. bs = line @ eol @ header_lines hs @ crlf @ rest
    \<and> line_end line eol \<and> (\<forall>h\<in>set hs. h \<noteq> [] \<and> no_crlf h)"
proof -
  let ?w = "if length (m @ 32 # bs) \<ge> REJECT_PEEK then NGX_ERROR else NGX_AGAIN"
  have w: "?w \<in> {NGX_ERROR, NGX_AGAIN}" by simp
  obtain n where n: "find_req_end bs = Some n"
    using assms w partial_line_rc [of ?w bs]
    by (cases "find_req_end bs") (auto simp: request_line_def Let_def)
  from find_req_end_okE [OF n] obtain line eol more where l: "bs = line @ eol @ more" "line_end line eol"
    "n = length line + length eol" by blast
  have "header_loop ?w False more \<noteq> Inl r" for r
    using assms w n l header_loop_wait [of ?w False more r]
    by (auto simp: request_line_def Let_def split: if_splits)
  then obtain b where "header_loop ?w False more = Inr b" by (cases "header_loop ?w False more") auto
  from header_loop_okE [OF this] l show ?thesis by blast
qed

lemma known_methods_upper: "m \<in> set known_methods \<Longrightarrow> list_all upper m \<and> 3 \<le> length m \<and> length m \<le> 7"
  "m \<in> set refused_methods \<Longrightarrow> list_all upper m \<and> 3 \<le> length m \<and> length m \<le> 7"
  "m \<in> set known_methods \<Longrightarrow> m \<notin> set refused_methods"
  by (auto simp: known_methods_def refused_methods_def bytes_of_def upper_def)

lemma is_http_token:
  assumes "list_all upper m" "length m \<le> 12" "7 \<le> length (m @ 32 # bs)"
  shows "is_http (m @ 32 # bs) =
    (if m \<in> set known_methods then
       if bs = [] then NGX_AGAIN else if hd bs = 32 \<or> hd bs = 13 \<or> hd bs = 10 then NGX_ERROR
       else request_line (m @ 32 # bs) (length m) False
     else if m \<in> set refused_methods then request_line (m @ 32 # bs) (length m) True else NGX_ERROR)"
proof -
  have "(m @ 32 # bs) ! Suc (length m) = hd bs" if "bs \<noteq> []"
    using that by (simp add: nth_append hd_conv_nth)
  then show ?thesis
    using assms by (cases "bs = []") (simp_all add: is_http_def scan_method_token)
qed

lemma is_http_answerE:
  assumes "is_http p = r" "r \<noteq> NGX_ERROR" "r \<noteq> NGX_AGAIN"
  shows "\<exists>m bs. p = m @ 32 # bs \<and> list_all upper m \<and> length m \<le> 12 \<and> 7 \<le> length p"
proof -
  have "7 \<le> length p" using assms by (auto simp: is_http_def split: if_splits)
  moreover obtain k where k: "scan_method p 0 = Inr k"
    using assms scan_method_rc [of p 0] by (cases "scan_method p 0") (auto simp: is_http_def split: if_splits)
  moreover have "k \<le> 12" using assms k by (auto simp: is_http_def split: if_splits)
  ultimately show ?thesis using scan_method_okE [OF k] by auto
qed

lemma http_request_length: "http_request M line p \<Longrightarrow> \<forall>m\<in>set M. 3 \<le> length m \<Longrightarrow> 7 \<le> length p"
  by (fastforce simp: http_request_def contains_def crlf_def line_end_def)

lemma first_byte:
  "line_end line eol \<Longrightarrow> hd (line @ eol @ tail_bytes) \<notin> {32, 13, 10} \<longleftrightarrow> line \<noteq> [] \<and> hd line \<noteq> 32 \<and> hd line \<noteq> 13"
  by (cases line) (auto simp: line_end_def crlf_def)

lemma is_http_full:
  assumes p: "p = m @ [32] @ line @ eol @ header_lines hs @ crlf @ rest" and le: "line_end line eol"
    and hs: "\<forall>h\<in>set hs. h \<noteq> [] \<and> no_crlf h"
    and ok: "contains (bytes_of ''HTTP/1.1'') (m @ [32] @ line @ eol) \<and> (\<exists>h\<in>set hs. host_header h)
       \<or> contains (bytes_of ''HTTP/1.0'') (m @ [32] @ line @ eol)"
  shows "m \<in> set known_methods \<Longrightarrow> line \<noteq> [] \<Longrightarrow> hd line \<noteq> 32 \<Longrightarrow> hd line \<noteq> 13 \<Longrightarrow> is_http p = NGX_OK"
    and "m \<in> set refused_methods \<Longrightarrow> is_http p = NGX_BUSY"
proof -
  define bs where "bs = line @ eol @ header_lines hs @ crlf @ rest"
  have p': "p = m @ 32 # bs" "bs \<noteq> []" by (simp_all add: p bs_def crlf_def)
  have req: "request_line p (length m) na = (if na then NGX_BUSY else NGX_OK)" for na
    unfolding p request_line_full [OF le hs] using ok by simp
  have len: "3 \<le> length m \<Longrightarrow> 7 \<le> length (m @ 32 # bs)"
    using le by (auto simp: bs_def crlf_def line_end_def)
  show "is_http p = NGX_OK"
    if "m \<in> set known_methods" "line \<noteq> []" "hd line \<noteq> 32" "hd line \<noteq> 13"
    using is_http_token [of m bs] known_methods_upper(1) [OF that(1)] that req [of False] p' len
      first_byte [OF le, of "header_lines hs @ crlf @ rest"] by (simp add: bs_def)
  show "is_http p = NGX_BUSY" if "m \<in> set refused_methods"
    using is_http_token [of m bs] known_methods_upper(2) [OF that] known_methods_upper(3) [of m] that req [of True] p' len
    by auto
qed

lemma http_requestE:
  assumes "http_request M line p"
  obtains m eol hs rest where "m \<in> set M" "p = m @ [32] @ line @ eol @ header_lines hs @ crlf @ rest"
    "line_end line eol" "\<forall>h\<in>set hs. h \<noteq> [] \<and> no_crlf h"
    "contains (bytes_of ''HTTP/1.1'') (m @ [32] @ line @ eol) \<and> (\<exists>h\<in>set hs. host_header h)
       \<or> contains (bytes_of ''HTTP/1.0'') (m @ [32] @ line @ eol)"
  using assms unfolding http_request_def by blast

lemma http_request_append: "http_request M line p \<Longrightarrow> http_request M line (p @ q)"
  by (erule http_requestE, unfold http_request_def)
    (intro exI conjI, assumption, simp only: append_assoc, assumption+)

lemma http_request_answer:
  "http_request known_methods line p \<Longrightarrow> line \<noteq> [] \<Longrightarrow> hd line \<noteq> 32 \<Longrightarrow> hd line \<noteq> 13 \<Longrightarrow> is_http p = NGX_OK"
  "http_request refused_methods line p \<Longrightarrow> is_http p = NGX_BUSY"
  by (erule http_requestE, rule is_http_full, assumption+)+

lemma is_http_answer_full:
  assumes "is_http p = r" "r \<noteq> NGX_ERROR" "r \<noteq> NGX_AGAIN"
  shows "(r = NGX_OK \<and> (\<exists>line. line \<noteq> [] \<and> hd line \<noteq> 32 \<and> hd line \<noteq> 13 \<and> http_request known_methods line p))
    \<or> (r = NGX_BUSY \<and> (\<exists>line. http_request refused_methods line p))"
proof -
  from is_http_answerE [OF assms] obtain m bs where p: "p = m @ 32 # bs" "list_all upper m" "length m \<le> 12"
    "7 \<le> length p" by blast
  note token = is_http_token [OF p(2,3), of bs, folded p(1), OF p(4)]
  have m: "m \<in> set known_methods \<and> bs \<noteq> [] \<and> hd bs \<notin> {32, 13, 10} \<and> r = request_line p (length m) False
      \<or> m \<notin> set known_methods \<and> m \<in> set refused_methods \<and> r = request_line p (length m) True"
    using token assms by (auto split: if_splits)
  then obtain na where na: "r = request_line (m @ 32 # bs) (length m) na" "na \<longleftrightarrow> m \<notin> set known_methods"
    using p(1) by blast
  with request_line_okE [of m bs na] assms obtain line eol hs rest where
    l: "bs = line @ eol @ header_lines hs @ crlf @ rest" "line_end line eol" "\<forall>h\<in>set hs. h \<noteq> [] \<and> no_crlf h"
    by auto
  have p_eq: "p = m @ [32] @ line @ eol @ header_lines hs @ crlf @ rest" using p(1) l(1) by simp
  note full = request_line_full [OF l(2,3), of m rest na, folded p_eq]
  have ok: "contains (bytes_of ''HTTP/1.1'') (m @ [32] @ line @ eol) \<and> (\<exists>h\<in>set hs. host_header h)
       \<or> contains (bytes_of ''HTTP/1.0'') (m @ [32] @ line @ eol)" and r: "r = (if na then NGX_BUSY else NGX_OK)"
    using full na(1) p(1) assms by (auto split: if_splits)
  have "http_request M line p" if "m \<in> set M" for M
    unfolding http_request_def using that ok l(2,3) p_eq by blast
  then show ?thesis
    using m na(2) r first_byte [OF l(2), of "header_lines hs @ crlf @ rest"] l(1) by auto
qed


section \<open>Waiting\<close>

lemma request_line_decides:
  assumes "REJECT_PEEK \<le> length p"
  shows "request_line p mlen na \<noteq> NGX_AGAIN"
proof (cases "find_req_end (drop (Suc mlen) p)")
  case None
  then show ?thesis
    using assms partial_line_rc [of NGX_ERROR "drop (Suc mlen) p"] unfolding request_line_def Let_def by auto
next
  case (Some n)
  show ?thesis
  proof (cases "header_loop NGX_ERROR False (drop (Suc mlen + n) p)")
    case (Inl r)
    then show ?thesis
      using assms Some header_loop_wait [OF Inl] unfolding request_line_def Let_def by simp
  next
    case (Inr b)
    then show ?thesis using assms Some unfolding request_line_def Let_def by simp
  qed
qed

text \<open>
  C34: With a full peek buffer the classifier decides, in all cases but one: it still waits if the
  buffer holds nothing but capital letters, although no further byte can be peeked.
\<close>

theorem is_http_decides:
  assumes "REJECT_PEEK \<le> length p"
  shows "is_http p = NGX_AGAIN \<longleftrightarrow> list_all upper p"
proof (cases "scan_method p 0")
  case (Inl r)
  then show ?thesis
    using assms scan_method_again [of p 0] by (auto simp: is_http_def)
next
  case (Inr k)
  moreover have "\<not> list_all upper p" using Inr scan_method_again [of p 0] by auto
  ultimately show ?thesis
    using assms request_line_decides [OF assms, of k] by (auto simp: is_http_def split: if_splits)
qed

theorem is_http_decides_witness:
  "is_http (bytes_of ''GET /'' @ replicate 32768 97) = NGX_AGAIN
    \<longleftrightarrow> list_all upper (bytes_of ''GET /'' @ replicate 32768 97)"
  by (rule is_http_decides) simp



section \<open>The handler\<close>

definition active :: "reject_in \<Rightarrow> bool" where
  "active ri \<longleftrightarrow> ri_enabled ri \<and> ri_reject ri \<and> ri_tcp ri \<and> ri_ssl ri \<and> \<not> ri_timedout ri"

definition tls_hello :: "buffer \<Rightarrow> bool" where
  "tls_hello bs \<longleftrightarrow> bs \<noteq> [] \<and> (hd bs = 22 \<or> bit (hd bs) 7)"

definition is_send :: "reject_effect \<Rightarrow> bool" where
  "is_send x \<longleftrightarrow> (\<exists>bs. x = Rej_send bs)"

definition is_end :: "reject_effect \<Rightarrow> bool" where
  "is_end x \<longleftrightarrow> (\<exists>n. x = Rej_finalize n)"

lemma high_bit: "(b :: byte) AND 128 \<noteq> 0 \<longleftrightarrow> bit b 7"
  using and_exp_eq_0_iff_not_bit [of b 7] by simp


text \<open>
  C37: The answers fit the buffer of 512 bytes they are composed in, given that the cached HTTP time
  has 29 bytes and that \<open>ngx_sprintf\<close> writes a number below 1000 with at most three digits.
\<close>

theorem pages_fit:
  assumes "length time = 29" and "\<forall>n<1000. length (dec n) \<le> 3"
  shows "length (page dec time bad_request plain_http_400_body) \<le> 512
    \<and> length (page dec time not_allowed_status not_allowed_body) \<le> 512
    \<and> length (page dec time bad_request default_400_body) \<le> 512"
proof -
  have "length plain_http_400_body = 248" "length not_allowed_body = 150" "length default_400_body = 150"
    by (simp_all add: plain_http_400_body_def not_allowed_body_def default_400_body_def crlf_def)
  then show ?thesis
    using assms(2) [rule_format, of 248] assms(2) [rule_format, of 150]
    by (simp add: page_def assms(1) crlf_def bad_request_def not_allowed_status_def)
qed

theorem pages_fit_witness:
  "length (page (\<lambda>_. [49, 53, 55]) (replicate 29 32) bad_request plain_http_400_body) \<le> 512
    \<and> length (page (\<lambda>_. [49, 53, 55]) (replicate 29 32) not_allowed_status not_allowed_body) \<le> 512
    \<and> length (page (\<lambda>_. [49, 53, 55]) (replicate 29 32) bad_request default_400_body) \<le> 512"
  by (rule pages_fit) simp_all

end
