(* ===== verification/Conn_Order.thy ===== *)
theory Conn_Order
  imports Client_Handler
begin

text \<open>
  Orders on connection states that every operation of the connection respects. The locales
  below extend \<open>mux_order\<close>: \<open>session_order\<close> by the step that adds a frame to the output
  and the one that creates a stream, \<open>input_order\<close> by the steps on the remnant of the client
  input, \<open>conn_order\<close> by the read into the buffer of the client. They show that whatever a
  connection does, from a client read to a resolver answer, is a sequence of such steps and of
  steps the order does not see. The theory also defines the events of a connection and its
  reachable states. The claims of the later theories about reachable states are
  interpretations of these locales.
\<close>

section \<open>Frames as they are queued\<close>

text \<open>
  A frame handed to the output queues: its bytes are a header that announces the payload
  after it, and its flags are those of its command.
\<close>

definition framed :: "out_frame \<Rightarrow> bool" where
  "framed f \<longleftrightarrow> (\<exists>sid data. of_bytes f = write_frame_header (of_cmd f) sid (word_of_nat (length data)) @ data
     \<and> length data = of_length f) \<and> of_length f \<le> NGX_ANYTLS_MAX_FRAME_DATA
     \<and> of_cmd f \<le> NGX_ANYTLS_CMD_SERVER_SETTINGS
     \<and> (of_blocked f \<longleftrightarrow> \<not> (of_cmd f = NGX_ANYTLS_CMD_PSH \<or> of_cmd f = NGX_ANYTLS_CMD_FIN))"

text \<open>The effects a claim may be about.\<close>

fun marked :: "effect \<Rightarrow> bool" where
  "marked (Eff_client_write bs) = True"
| "marked (Eff_finalize_session n) = True"
| "marked Eff_overflow = True"
| "marked Eff_unreached = True"
| "marked _ = False"

text \<open>The sockets never deliver an empty datagram to a connected UoT stream.\<close>

definition no_empty_datagram :: "env \<Rightarrow> bool" where
  "no_empty_datagram e \<longleftrightarrow> (\<forall>t sz. case e_udp_recv e t sz of
     Recv_eof \<Rightarrow> False | Recv_bytes bs \<Rightarrow> sz > 0 \<longrightarrow> bs \<noteq> [] | _ \<Rightarrow> True)"

definition read_whole :: "bool + buffer \<times> nat \<Rightarrow> bool" where
  "read_whole x \<longleftrightarrow> (case x of Inl _ \<Rightarrow> True | Inr (bs, n) \<Rightarrow> n = length bs)"

lemma handle_frame_cmd:
  assumes "a \<in> set (snd (snd (handle_frame strlchr mem core f)))"
  shows "act_cmd a \<le> NGX_ANYTLS_CMD_SERVER_SETTINGS"
  using assms
  by (auto simp: handle_frame_def handle_settings_eq emit_def session_add_action_def
      update_padding_action_def server_settings_action_def action_zero_def Let_def
      split: parsed.splits if_splits)

lemma handle_frame_cmds:
  "case handle_frame strlchr mem core f of (r, core', acts) \<Rightarrow>
     \<forall>a\<in>set acts. act_cmd a \<le> NGX_ANYTLS_CMD_SERVER_SETTINGS"
  using handle_frame_cmd [of _ strlchr mem core f] by (auto split: prod.splits)

text \<open>\<open>yields P m\<close>: from every state, the result of \<open>m\<close> satisfies \<open>P\<close>.\<close>

definition yields :: "('a \<Rightarrow> bool) \<Rightarrow> 'a M \<Rightarrow> bool" where
  "yields P m \<longleftrightarrow> (\<forall>c. P (fst (run_state m c)))"

lemma yields_ret: "P a \<Longrightarrow> yields P (ret a)"
  by (simp add: yields_def)

lemma yields_ask: "(\<And>t. P (q t)) \<Longrightarrow> yields P (ask q)"
  by (simp add: yields_def)

lemma yields_bind: "(\<And>a. yields P (f a)) \<Longrightarrow> yields P (State_Monad.bind m f)"
  by (simp add: yields_def split: prod.split)

lemma yields_bind_post: "yields Q m \<Longrightarrow> (\<And>a. Q a \<Longrightarrow> yields P (f a)) \<Longrightarrow> yields P (State_Monad.bind m f)"
  by (simp add: yields_def split: prod.split) (metis fst_conv)

lemma yields_if: "(b \<Longrightarrow> yields P m) \<Longrightarrow> (\<not> b \<Longrightarrow> yields P n) \<Longrightarrow> yields P (if b then m else n)"
  by simp

lemma yields_recv:
  "(\<And>bs. x = Recv_bytes bs \<Longrightarrow> yields P (f bs)) \<Longrightarrow> yields P m \<Longrightarrow> (x = Recv_eof \<Longrightarrow> yields P n) \<Longrightarrow> yields P l
    \<Longrightarrow> yields P (case x of Recv_bytes bs \<Rightarrow> f bs | Recv_again \<Rightarrow> m | Recv_eof \<Rightarrow> n | Recv_error \<Rightarrow> l)"
  by (simp split: recv.split)

lemmas yields_rules = yields_ret yields_if yields_recv yields_bind

text \<open>A read returns as many bytes as the frame made of them announces.\<close>

lemma read_udp_nonempty:
  "no_empty_datagram e \<Longrightarrow> sz > 0 \<Longrightarrow> yields (\<lambda>r. r \<noteq> Recv_eof) (transport_read_udp e sz)"
  unfolding no_empty_datagram_def transport_read_udp_def recv_upto_def
  by (intro yields_ask) (auto split: recv.splits)

lemma read_upstream_whole:
  assumes "no_empty_datagram e"
  shows "yields read_whole (read_upstream e resume st sz cap)"
proof -
  have "yields read_whole (do {
      r \<leftarrow> transport_read_udp e (sz - 2);
      case r of
        Recv_again \<Rightarrow> do { upstream_free_read_buf cap; ret (Inl True) }
      | Recv_error \<Rightarrow> do { upstream_free_read_buf cap; stream_close e resume st; ret (Inl False) }
      | Recv_eof \<Rightarrow> ret (Inr ([], 2))
      | Recv_bytes bs \<Rightarrow> ret (Inr (put16 (word_of_nat (length bs)) @ bs, length bs + 2)) })" if "\<not> sz \<le> 2"
    using that
    by (intro yields_bind_post [OF read_udp_nonempty [OF assms]]) 
      (auto intro!: yields_rules simp: read_whole_def put16_def)
  then show ?thesis
    unfolding read_upstream_def
    by (intro yields_bind [where m = "sget st (\<lambda>s. s)"] yields_if)
      (auto intro!: yields_rules simp: read_whole_def)
qed

context step_order
begin

lemma ok_sum: "(\<And>a. ok (f a)) \<Longrightarrow> (\<And>b. ok (g b)) \<Longrightarrow> ok (case x of Inl a \<Rightarrow> f a | Inr b \<Rightarrow> g b)"
  by (simp split: sum.split)

lemma ok_list: "ok m \<Longrightarrow> (\<And>y ys. ok (f y ys)) \<Longrightarrow> ok (case x of [] \<Rightarrow> m | y # ys \<Rightarrow> f y ys)"
  by (simp split: list.split)

lemma ok_parsed:
  "(\<And>a. ok (f a)) \<Longrightarrow> ok m \<Longrightarrow> ok n \<Longrightarrow> ok (case x of P_ok a \<Rightarrow> f a | P_again \<Rightarrow> m | P_error \<Rightarrow> n)"
  by (simp split: parsed.split)

lemma ok_io:
  "(\<And>k. ok (f k)) \<Longrightarrow> ok m \<Longrightarrow> ok n \<Longrightarrow> ok (case x of IO_bytes k \<Rightarrow> f k | IO_again \<Rightarrow> m | IO_error \<Rightarrow> n)"
  by (simp split: io.split)

lemma ok_recv:
  "(\<And>bs. ok (f bs)) \<Longrightarrow> ok m \<Longrightarrow> ok n \<Longrightarrow> ok l
    \<Longrightarrow> ok (case x of Recv_bytes bs \<Rightarrow> f bs | Recv_again \<Rightarrow> m | Recv_eof \<Rightarrow> n | Recv_error \<Rightarrow> l)"
  by (simp split: recv.split)

lemma ok_recvfrom:
  "(\<And>sa bs. ok (f sa bs)) \<Longrightarrow> ok m \<Longrightarrow> ok n
    \<Longrightarrow> ok (case x of Dgram sa bs \<Rightarrow> f sa bs | Dgram_again \<Rightarrow> m | Dgram_error \<Rightarrow> n)"
  by (simp split: recvfrom.split)

lemma ok_resolve_start:
  "ok l \<Longrightarrow> ok m \<Longrightarrow> ok n \<Longrightarrow> ok (case x of Resolve_null \<Rightarrow> l | Resolve_none \<Rightarrow> m | Resolve_ctx \<Rightarrow> n)"
  by (simp split: resolve_start.split)

lemma ok_family:
  "ok l \<Longrightarrow> ok m \<Longrightarrow> ok n \<Longrightarrow> ok (case x of AF_INET \<Rightarrow> l | AF_INET6 \<Rightarrow> m | AF_OTHER \<Rightarrow> n)"
  by (simp split: family.split)

lemma ok_resolve_event: "ok l \<Longrightarrow> ok m \<Longrightarrow> ok (case x of RESOLVE_OK \<Rightarrow> l | RESOLVE_ERROR \<Rightarrow> m)"
  by (simp split: resolve_event.split)

lemma ok_bind_yields: "ok m \<Longrightarrow> yields P m \<Longrightarrow> (\<And>a. P a \<Longrightarrow> ok (f a)) \<Longrightarrow> ok (State_Monad.bind m f)"
  unfolding state_io_rel_def yields_def by (auto split: prod.split) (metis R_trans fst_conv snd_conv)

lemmas ok_cases = ok_sum ok_list ok_parsed ok_io ok_recv ok_recvfrom ok_resolve_start ok_family
  ok_resolve_event

end

section \<open>The operations below the client handler\<close>

text \<open>
  An order that also allows a frame to be queued, a stream to be created and the connection to
  be finalized is respected by everything that handles actions of the session and events of
  upstreams, datagrams, timers and the resolver.
\<close>

locale session_order = mux_order +
  assumes R_place: "framed f \<Longrightarrow> st = None \<or> frame_strong_ref (of_cmd f) st \<Longrightarrow> c_frames c < NGX_ANYTLS_MAX_OUT_FRAMES
      \<Longrightarrow> R c (snd (run_state (place_frame st (queued_frame st f)) c))"
    and R_new: "R c (snd (run_state (new_stream sid) c))"
    and R_finalize: "state_io_rel R resume \<Longrightarrow> state_io_rel R (finalize_rc e resume code)"
    and seen_only: "seen x \<Longrightarrow> marked x"
begin

lemma ok_effect: "\<not> marked x \<Longrightarrow> ok (perform x)"
  using ok_perform seen_only by blast

lemma ok_get_frame: "ok (get_frame e)" "ok (free_frame f)"
  unfolding get_frame_def free_frame_def by (intro ok_rules ok_view; simp add: out_view_def)+

lemma ok_queue_prepared:
  assumes "framed f" and "st = None \<or> frame_strong_ref (of_cmd f) st"
  shows "ok (queue_prepared_frame st f)"
proof -
  have tail: "ok (do { client_mux_post_write; ret NGX_OK })"
    by (intro ok_rules ok_timers)
  have "R c (snd (run_state (do { place_frame st (queued_frame st f); client_mux_post_write; ret NGX_OK }) c))"
    if "\<not> c_frames c \<ge> NGX_ANYTLS_MAX_OUT_FRAMES" for c
    using R_place [OF assms, of c] that ok_run [OF tail, of "snd (run_state (place_frame st (queued_frame st f)) c)"]
    by (auto simp del: run_modify split: prod.splits intro: R_trans)
  moreover have "R c (snd (run_state (do { free_frame f; ret NGX_ERROR }) c))" for c
    by (intro ok_run ok_rules ok_get_frame)
  ultimately show ?thesis
    unfolding queue_prepared_frame_def state_io_rel_def by (auto split: option.split)
qed

text \<open>The common beginning of the three functions that queue a frame.\<close>

lemma ok_with_frame:
  assumes "\<not> b \<Longrightarrow> ok (h frame_zero)"
  shows "ok (do { room \<leftarrow> gets g;
    if b then ret x else if P room then ret y
    else do { fo \<leftarrow> get_frame e; case fo of None \<Rightarrow> ret z | Some f \<Rightarrow> h f } })"
proof (intro ok_bind [OF ok_gets] ok_if ok_ret)
  fix room assume "\<not> b"
  show "ok (do { fo \<leftarrow> get_frame e; case fo of None \<Rightarrow> ret z | Some f \<Rightarrow> h f })"
    using assms [OF \<open>\<not> b\<close>]
    by (intro ok_bind_yields [OF ok_get_frame(1), where P = "\<lambda>fo. fo = None \<or> fo = Some frame_zero"])
      (auto simp: get_frame_def yields_def ok_ret)
qed

lemma framed_frame:
  assumes "cmd \<le> NGX_ANYTLS_CMD_SERVER_SETTINGS" "length data \<le> NGX_ANYTLS_MAX_FRAME_DATA"
    "of_cmd f = cmd" "of_length f = length data"
    "of_blocked f \<longleftrightarrow> \<not> (cmd = NGX_ANYTLS_CMD_PSH \<or> cmd = NGX_ANYTLS_CMD_FIN)"
    "of_bytes f = write_frame_header cmd sid (word_of_nat (length data)) @ data"
  shows "framed f"
  unfolding framed_def using assms by (intro conjI exI [of _ sid] exI [of _ data]) simp_all

lemma ok_queue_frame:
  "cmd \<le> NGX_ANYTLS_CMD_SERVER_SETTINGS \<Longrightarrow> st = None \<or> frame_strong_ref cmd st
    \<Longrightarrow> ok (client_mux_queue_frame e st cmd sid data)"
  unfolding client_mux_queue_frame_def Let_def
  by (rule ok_with_frame)
    (intro ok_rules ok_get_frame ok_queue_prepared framed_frame [of cmd data _ sid]; simp add: frame_zero_def)

lemma ok_queue_ref_frame:
  "cmd \<le> NGX_ANYTLS_CMD_SERVER_SETTINGS \<Longrightarrow> st = None \<or> frame_strong_ref cmd st
    \<Longrightarrow> ok (client_mux_queue_ref_frame e st cmd sid data)"
  unfolding client_mux_queue_ref_frame_def Let_def
  by (rule ok_with_frame)
    (intro ok_queue_prepared framed_frame [of cmd data _ sid]; simp add: frame_zero_def)

lemma ok_queue_chain_frame:
  "ok (client_mux_queue_chain_frame e (Some p) NGX_ANYTLS_CMD_PSH sid (Some ch) (length (ch_bytes ch)) rec chk)"
  unfolding client_mux_queue_chain_frame_def Let_def
  by (rule ok_with_frame)
    (auto simp: frame_zero_def frame_strong_ref_def intro!: ok_queue_prepared framed_frame [of NGX_ANYTLS_CMD_PSH "ch_bytes ch" _ sid])

lemma ok_send_synack: "ok (client_mux_send_synack e st data)"
  unfolding client_mux_send_synack_def
  by (intro ok_rules ok_view ok_queue_ref_frame; simp add: out_view_def frame_strong_ref_def)

lemma ok_queue_error: "ok (client_mux_queue_error e None data)"
  unfolding client_mux_queue_error_def by (intro ok_rules ok_queue_ref_frame; simp)

lemma ok_send_fin_and_close: "ok resume \<Longrightarrow> ok (stream_send_fin_and_close e resume st)"
  unfolding stream_send_fin_and_close_def
  by (intro ok_rules ok_view ok_stream_small ok_stream_close ok_queue_frame;
      simp add: out_view_def frame_strong_ref_def)

lemma ok_resolve:
  "ok (resolve_sync e st a)" "ok (resolve_addr e st target a)"
  unfolding resolve_sync_def resolve_addr_def
  by (intro ok_rules ok_cases ok_view ok_effect ok_stream_small ok_resolver_cancel;
      simp add: out_view_def seen_close)+

lemma ok_events:
  "ok (arm_write e)" "ok (disarm_write e)" "ok (transport_read e sz)" "ok (transport_read_udp e sz)"
  "ok (add_bytes_sent st n)"
  unfolding arm_write_def disarm_write_def transport_read_def transport_read_udp_def add_bytes_sent_def
  by (intro ok_rules ok_view; simp add: out_view_def)+

lemma ok_mark_sent: "ok resume \<Longrightarrow> ok (mark_sent e resume st n sent)"
proof (induction n arbitrary: sent)
  case (Suc n)
  show ?case
    by (subst mark_sent.simps)
      (intro ok_rules ok_cases ok_view ok_events ok_buffers ok_update_input Suc; simp add: out_view_def)
qed (simp add: ok_ret)

lemma ok_send_round: "ok resume \<Longrightarrow> ok (send_round e resume st max_bytes tot)"
  unfolding send_round_def
  by (intro ok_rules ok_events ok_effect ok_mark_sent; simp)

lemma ok_send_loop: "ok resume \<Longrightarrow> ok (send_loop e resume st n max_bytes tot)"
proof (induction n arbitrary: max_bytes tot)
  case (Suc n)
  show ?case by (subst send_loop.simps) (intro ok_rules ok_cases ok_send_round Suc)
qed (simp add: ok_ret)

lemma ok_send_pending: "ok resume \<Longrightarrow> ok (upstream_send_pending e resume st max_bytes)"
  unfolding upstream_send_pending_def
  by (intro ok_rules ok_cases ok_view ok_events ok_effect ok_send_loop; simp add: out_view_def)

lemma ok_direct_send: "ok (direct_send e st n data)"
proof (induction n arbitrary: data)
  case (Suc n)
  show ?case by (subst direct_send.simps) (intro ok_rules ok_cases ok_events ok_effect Suc; simp)
qed (simp add: ok_ret)

lemma ok_upstream_queue: "ok (upstream_enqueue e st data)" "ok resume \<Longrightarrow> ok (upstream_queue e resume st data)"
  unfolding upstream_queue_def upstream_direct_def upstream_enqueue_def
  by (intro ok_rules ok_view ok_events ok_effect ok_buffers ok_stream_small ok_pause ok_send_pending
      ok_direct_send; simp add: out_view_def)+

lemma ok_upstream_state:
  "ok (stream_state_open e st)" "ok (stream_state_on_connect e st)" "ok (mux_on_connect_pending st)"
  unfolding stream_state_open_def stream_state_on_connect_def mux_on_connect_pending_def
  by (intro ok_rules ok_view; simp add: out_view_def)+

lemma ok_on_connect_ready: "ok resume \<Longrightarrow> ok (mux_on_connect_ready e resume st)"
  unfolding mux_on_connect_ready_def
  by (intro ok_rules ok_view ok_mux_closing ok_upstream_state ok_send_synack ok_stream_close;
      simp add: out_view_def)

lemma ok_upstream_open:
  "ok resume \<Longrightarrow> ok (upstream_open_resolved e resume st)" "ok resume \<Longrightarrow> ok (upstream_open e resume st a)"
  unfolding upstream_open_def upstream_open_resolved_def
  by (intro ok_rules ok_view ok_stream_small ok_upstream_state ok_on_connect_ready ok_send_pending
      ok_effect ok_events ok_resolve; simp add: out_view_def)+

text \<open>UDP over TCP.\<close>

lemma ok_uot_resolve: "ok (uot_resolve_sync e st a)" "ok (uot_resolve_addr e st tgt a)"
  unfolding uot_resolve_sync_def uot_resolve_addr_def
  by (intro ok_rules ok_stream_small ok_resolve)+

lemma ok_uot_buffer: "ok (uot_grow e st n)" "ok (uot_buffer_append e st data)" "ok (uot_keep st left)"
  "ok (uot_finish st x)" "ok (uot_enqueue_pending e st a payload)" "ok (uot_drop_pending_domain st domain port)"
  unfolding uot_grow_def uot_buffer_append_def uot_keep_def uot_finish_def uot_enqueue_pending_def
    uot_drop_pending_domain_def
  by (intro ok_rules ok_view ok_stream_small; simp add: out_view_def drop_domain_def Let_def)+

lemma ok_uot_socket: "ok (uot_log_output_drop e st)" "ok (uot_arm_idle_timer e st)" "ok (transport_open_udp e fam)"
  "ok (udp_socket e st fam)" "ok (uot_upstream_state_open e st sa a)"
  unfolding uot_log_output_drop_def uot_arm_idle_timer_def transport_open_udp_def udp_socket_def
    uot_upstream_state_open_def
  by (intro ok_rules ok_view ok_stream_small ok_effect ok_upstream_state; simp add: out_view_def)+

lemma ok_uot_send_resolved: "ok (uot_send_resolved e st a payload)"
  unfolding uot_send_resolved_def
  by (intro ok_rules ok_uot_socket ok_effect ok_events; simp)

lemma ok_uot_flush_loop: "ok (uot_flush_loop e st domain port sa pkts)"
proof (induction pkts)
  case (Cons pkt pkts)
  show ?case
    by (subst uot_flush_loop.simps)
      (intro ok_rules ok_view ok_uot_send_resolved ok_uot_buffer Cons; simp add: unqueue_def)
qed (simp add: ok_ret)

lemma ok_uot_process_loop: "ok (uot_process_loop e st n)"
proof (induction n)
  case (Suc n)
  show ?case
    by (subst uot_process_loop.simps, unfold uot_flush_pending_domain_def)
      (intro ok_rules ok_cases ok_view ok_resolve ok_uot_buffer ok_uot_flush_loop Suc; simp)
qed (simp add: ok_ret)

lemma ok_uot_pending: "ok (uot_flush_pending_domain e st domain port sa)" "ok (uot_process_pending e st)"
  "ok (uot_send_domain_packet e st a payload)" "ok (uot_send_payload e st tgt a payload)"
  unfolding uot_flush_pending_domain_def uot_process_pending_def uot_send_domain_packet_def
    uot_send_payload_def
  by (intro ok_rules ok_view ok_uot_flush_loop ok_uot_process_loop ok_uot_buffer ok_uot_resolve
      ok_uot_send_resolved; simp)+

lemma ok_uot_connect_loop: "ok (uot_connect_loop e st n rest)"
proof (induction n arbitrary: rest)
  case (Suc n)
  show ?case by (subst uot_connect_loop.simps) (intro ok_rules ok_uot_pending Suc)
qed (simp add: ok_ret)

lemma ok_uot_packet_loop: "ok (uot_packet_loop e st n rest)"
proof (induction n arbitrary: rest)
  case (Suc n)
  show ?case
    by (subst uot_packet_loop.simps) (intro ok_rules ok_cases ok_stream_small ok_uot_pending Suc)
qed (simp add: ok_ret)

lemma ok_uot_client_payload: "ok (uot_client_payload e st data)"
  unfolding uot_client_payload_def uot_request_def uot_packets_def
  by (intro ok_rules ok_cases ok_view ok_stream_small ok_uot_buffer ok_uot_resolve ok_uot_connect_loop
      ok_uot_packet_loop; simp)

lemma ok_uot_open: "ok (uot_open e st a)"
  unfolding uot_open_def by (intro ok_rules ok_view ok_send_synack; simp add: out_view_def)

lemma ok_uot_resolved: "ok (uot_resolved e st)" "ok (uot_packet_resolve_failed e st)" "ok (uot_packet_resolved e st)"
  unfolding uot_resolved_def uot_packet_resolve_failed_def uot_packet_resolved_def
  by (intro ok_rules ok_view ok_uot_client_payload ok_uot_buffer ok_uot_pending; simp add: clear_resolver_def)+

lemma ok_uot_forward: "ok (uot_forward_dgram e st cap n atyp sa payload)"
proof -
  have "ok (uot_queue_udp_frame e st cap bytes)" for bytes
    unfolding uot_queue_udp_frame_def
    using ok_queue_chain_frame [of e st _ "\<lparr>ch_bytes = bytes, ch_cap = cap, ch_headroom = True\<rparr>" True False]
    by (intro ok_rules) simp
  then show ?thesis
    unfolding uot_forward_dgram_def
    by (intro ok_rules ok_view ok_buffers ok_uot_socket; simp)
qed

lemma ok_uot_read_dgram: "ok (uot_read_dgram e st)"
  unfolding uot_read_dgram_def by (intro ok_rules ok_cases ok_buffers ok_uot_forward)

lemma ok_uot_idle: "ok resume \<Longrightarrow> ok (uot_idle_timeout_handler e resume st)"
  unfolding uot_idle_timeout_handler_def by (intro ok_rules ok_uot_close ok_send_fin_and_close)

text \<open>The upstream multiplexer.\<close>

lemma ok_handle_client: 
  "ok resume \<Longrightarrow> ok (mux_handle_client_fin e resume st)"
  "ok resume \<Longrightarrow> ok (mux_handle_client_payload e resume st data)"
  "ok resume \<Longrightarrow> ok (mux_handle_first_psh e resume st a data)"
  unfolding mux_handle_client_fin_def mux_handle_client_payload_def mux_handle_first_psh_def mux_open_def
  by (intro ok_rules ok_view ok_effect ok_stream_small ok_uot_close ok_stream_close ok_send_pending
      ok_uot_client_payload ok_upstream_queue ok_upstream_open ok_uot_open ok_send_synack;
      simp add: out_view_def)+

lemma ok_mux_reads: "ok (mux_requeue_read e)" "ok (mux_queue_read st)" "ok (count_read_frame e st sb n)"
  "ok resume \<Longrightarrow> ok (block_or_close e resume st)"
  unfolding mux_requeue_read_def mux_queue_read_def count_read_frame_def block_or_close_def
  by (intro ok_rules ok_view ok_block_read ok_stream_close; simp add: out_view_def)+

lemma ok_read_upstream: "ok resume \<Longrightarrow> ok (read_upstream e resume st sz cap)"
  unfolding read_upstream_def
  by (intro ok_rules ok_cases ok_view ok_effect ok_events ok_buffers ok_stream_close
      ok_send_fin_and_close; simp)

lemma ok_read_loop: "ok resume \<Longrightarrow> no_empty_datagram e \<Longrightarrow> ok (read_loop e resume st sz n sb)"
proof (induction n arbitrary: sb)
  case (Suc n)
  have frame: "ok (client_mux_queue_chain_frame e (Some st) NGX_ANYTLS_CMD_PSH sid
      (Some \<lparr>ch_bytes = bs, ch_cap = cap, ch_headroom = True\<rparr>) (length bs) True True)" for sid bs cap
    using ok_queue_chain_frame [of e st sid "\<lparr>ch_bytes = bs, ch_cap = cap, ch_headroom = True\<rparr>"]
    by simp
  have "ok (case x of Inl brk \<Rightarrow> ret (sb, brk)
      | Inr (bytes, len) \<Rightarrow> do {
          sid \<leftarrow> sget st st_id;
          r \<leftarrow> client_mux_queue_chain_frame e (Some st) NGX_ANYTLS_CMD_PSH sid
                 (Some \<lparr>ch_bytes = bytes, ch_cap = cap, ch_headroom = True\<rparr>) len True True;
          if r = NGX_AGAIN then do { upstream_free_read_buf cap; block_or_close e resume st; ret (sb, False) }
          else if r \<noteq> NGX_OK then do { upstream_free_read_buf cap; stream_close e resume st; ret (sb, False) }
          else do { sb' \<leftarrow> count_read_frame e st sb len; read_loop e resume st sz n sb' } })"
    if "read_whole x" for x cap
    using that Suc
    by (auto simp: read_whole_def split: sum.split intro!: frame ok_rules ok_mux_reads ok_stream_close ok_buffers)
  then have "ok (do { x \<leftarrow> read_upstream e resume st sz cap; case x of Inl brk \<Rightarrow> ret (sb, brk)
      | Inr (bytes, len) \<Rightarrow> do {
          sid \<leftarrow> sget st st_id;
          r \<leftarrow> client_mux_queue_chain_frame e (Some st) NGX_ANYTLS_CMD_PSH sid
                 (Some \<lparr>ch_bytes = bytes, ch_cap = cap, ch_headroom = True\<rparr>) len True True;
          if r = NGX_AGAIN then do { upstream_free_read_buf cap; block_or_close e resume st; ret (sb, False) }
          else if r \<noteq> NGX_OK then do { upstream_free_read_buf cap; stream_close e resume st; ret (sb, False) }
          else do { sb' \<leftarrow> count_read_frame e st sb len; read_loop e resume st sz n sb' } } })" for cap
    using Suc.prems
    by (intro ok_bind_yields [OF _ read_upstream_whole] ok_read_upstream)
  then show ?case
    by (subst read_loop.simps)
      (intro ok_if ok_bind [OF ok_gets] ok_option ok_bind [OF ok_buffers(5)];
       use Suc.prems in \<open>auto intro!: ok_rules ok_mux_reads ok_stream_close\<close>)
qed (simp add: ok_ret)

lemma ok_drain_reads_loop:
  "ok resume \<Longrightarrow> no_empty_datagram e \<Longrightarrow> ok (drain_reads_loop e resume n sb cur)"
proof (induction n arbitrary: sb cur)
  case (Suc n)
  show ?case
    by (subst drain_reads_loop.simps)
      (intro ok_rules ok_view ok_read_loop Suc; simp add: out_view_def)
qed (simp add: ok_ret)

lemma ok_on_read_ready: "ok resume \<Longrightarrow> no_empty_datagram e \<Longrightarrow> ok (mux_on_read_ready e resume st)"
  unfolding mux_on_read_ready_def mux_drain_reads_def
  by (intro ok_rules ok_mux_reads ok_drain_reads_loop)

lemma ok_drain_writes_loop: "ok resume \<Longrightarrow> ok (drain_writes_loop e resume n sb cur)"
proof (induction n arbitrary: sb cur)
  case (Suc n)
  show ?case
    by (subst drain_writes_loop.simps, unfold count_write_flush_def mux_queue_write_def)
      (intro ok_rules ok_view ok_send_pending ok_stream_close Suc; simp add: out_view_def)
qed (simp add: ok_ret)

lemma ok_on_write_ready: "ok resume \<Longrightarrow> ok (mux_on_write_ready e resume st)"
  unfolding mux_on_write_ready_def mux_drain_writes_def mux_queue_write_def
  by (intro ok_rules ok_view ok_drain_writes_loop; simp add: out_view_def)

lemma ok_upstream_write_handler: "ok resume \<Longrightarrow> ok (upstream_write_handler e resume st timedout)"
  unfolding upstream_write_handler_def
  by (intro ok_rules ok_effect ok_on_write_ready ok_send_synack ok_stream_close ok_on_connect_ready; simp)

lemma ok_udp_read_loop: "ok (udp_read_loop e st n)"
proof (induction n)
  case (Suc n)
  show ?case by (subst udp_read_loop.simps) (intro ok_rules ok_uot_read_dgram Suc)
qed (simp add: ok_ret)

lemma ok_udp_read_handler:
  "ok resume \<Longrightarrow> no_empty_datagram e \<Longrightarrow> ok (udp_read_handler e resume n st)"
  unfolding udp_read_handler_def
  by (intro ok_rules ok_uot_socket ok_on_read_ready ok_block_read ok_udp_read_loop ok_stream_close)

lemma ok_mux_event: "ok resume \<Longrightarrow> ok (mux_event e resume st ev)"
  unfolding mux_event_def mux_open_resolved_def
  by (intro ok_rules ok_cases ok_view ok_upstream_open ok_stream_close ok_uot_resolved ok_send_synack;
      simp add: clear_resolver_def)

lemma ok_resolve_handler: "ok resume \<Longrightarrow> ok (resolve_handler e resume st answer)"
  unfolding resolve_handler_def
  by (intro ok_rules ok_view ok_effect ok_mux_event; simp)

text \<open>The fallback.\<close>

lemma ok_fallback_state: "ok (fallback_state_open e name)" "ok (fallback_on_connect e)"
  "ok (fallback_on_first_byte e)" "ok (fallback_count up n)" "ok (set_slot up b)" "ok (fallback_get_buf e up)"
  unfolding fallback_state_open_def fallback_on_connect_def fallback_on_first_byte_def fallback_count_def
    set_slot_def fallback_get_buf_def
  by (intro ok_rules ok_view; simp add: out_view_def)+

lemma ok_fallback_start: "ok (fallback_start e raw)"
  unfolding fallback_start_def
  by (intro ok_rules ok_cases ok_view ok_effect ok_fallback_state; simp add: out_view_def)

lemma ok_flush_buf_loop: "ok (flush_buf_loop e up budget n sent b)"
proof (induction n arbitrary: sent b)
  case (Suc n)
  show ?case
    by (subst flush_buf_loop.simps)
      (intro ok_rules ok_cases ok_events ok_effect ok_fallback_state Suc; simp add: post_write_next_def)
qed (simp add: ok_ret)

lemma ok_flush_slot: "ok (fallback_flush_buf e up budget b)" "ok (flush_slot e up)"
  unfolding flush_slot_def fallback_flush_buf_def
  by (intro ok_rules ok_fallback_state ok_flush_buf_loop)+

lemma ok_arm_or_finalize: "ok resume \<Longrightarrow> ok (arm_or_finalize e resume)" "ok resume \<Longrightarrow> ok (finalize e resume)"
  unfolding arm_or_finalize_def finalize_def by (intro ok_rules R_finalize; simp)+

lemma ok_fallback_write: "ok resume \<Longrightarrow> ok (fallback_write e resume is_client timedout)"
  unfolding fallback_write_def fallback_connected_def fallback_flush_upstream_def fallback_bad_gateway_def
  by (intro ok_rules ok_view ok_effect ok_fallback_state ok_flush_slot ok_arm_or_finalize R_finalize;
      simp add: out_view_def)

lemma ok_fallback_read_loop: "ok resume \<Longrightarrow> ok (fallback_read_loop e resume up n bytes)"
proof (induction n arbitrary: bytes)
  case (Suc n)
  show ?case
    by (subst fallback_read_loop.simps)
      (intro ok_rules ok_cases ok_view ok_events ok_fallback_state ok_flush_slot ok_arm_or_finalize Suc;
       simp add: out_view_def)
qed (simp add: ok_ret)

lemma ok_fallback_read: "ok resume \<Longrightarrow> ok (fallback_read e resume up)"
  unfolding fallback_read_def
  by (intro ok_rules ok_effect ok_arm_or_finalize ok_fallback_state ok_flush_slot ok_fallback_read_loop; simp)

text \<open>The client side.\<close>

lemma ok_stream_alloc: "ok (stream_alloc e sid)"
proof -
  have "ok (new_stream sid)" by (simp add: state_io_rel_def R_new)
  then show ?thesis
    unfolding stream_alloc_def by (intro ok_rules ok_view; simp add: out_view_def)
qed

lemma ok_stream_create: "ok (stream_create_if_absent e sid)"
  unfolding stream_create_if_absent_def by (intro ok_rules ok_stream_alloc)

lemma ok_session_action:
  "ok resume \<Longrightarrow> act_cmd a \<le> NGX_ANYTLS_CMD_SERVER_SETTINGS \<Longrightarrow> ok (session_action e resume a)"
  unfolding session_action_def forward_payload_def forward_first_psh_def
  by (cases "act_type a"; simp only: action_type.case;
      intro ok_rules ok_view ok_stream_small ok_stream_create ok_queue_ref_frame ok_queue_error ok_handle_client
        ok_drain ok_arm_or_finalize; simp add: out_view_def stream_set_first_psh_def)

lemma ok_session_actions_run:
  "ok resume \<Longrightarrow> \<forall>a\<in>set acts. act_cmd a \<le> NGX_ANYTLS_CMD_SERVER_SETTINGS
    \<Longrightarrow> ok (session_actions_run e resume acts r)"
proof (induction acts arbitrary: r)
  case (Cons a acts)
  show ?case
    by (subst session_actions_run.simps) (intro ok_rules ok_session_action Cons; use Cons.prems in simp)
qed (simp add: ok_ret)

lemma ok_handle_frame:
  assumes "\<And>r core' acts. \<forall>a\<in>set acts. act_cmd a \<le> NGX_ANYTLS_CMD_SERVER_SETTINGS \<Longrightarrow> ok (k r core' acts)"
  shows "ok (do { (r, core', acts) \<leftarrow> ask (\<lambda>t. handle_frame (e_strlchr e) (\<lambda>i. e_alloc e (t + i)) core f);
    k r core' acts })"
  by (rule ok_bind_yields [OF ok_ask yields_ask,
        where P = "\<lambda>(r, core', acts). \<forall>a\<in>set acts. act_cmd a \<le> NGX_ANYTLS_CMD_SERVER_SETTINGS"])
    (auto simp: handle_frame_cmds split: prod.splits intro: assms)

lemma ok_cache_peer_version: "ok (cache_peer_version e)"
  unfolding cache_peer_version_def by (rule ok_modify_view) (simp add: out_view_def)

lemma out_view_auth: "out_view (snd (auth_process users c data)) = out_view (c :: conn)"
proof -
  have padding: "out_view (snd (auth_padding c data n)) = out_view c" for c :: conn and data n
    by (simp add: auth_padding_def Let_def out_view_def)
  have "out_view (snd (auth_check users c data n)) = out_view c" for c :: conn and data n
    by (simp add: auth_check_def Let_def padding split: prod.split) (simp add: out_view_def)
  then show ?thesis
    by (simp add: auth_process_def Let_def) (simp add: out_view_def)
qed

lemma ok_process_auth: "ok (process_auth e data)"
  unfolding process_auth_def send_http_400_def
  by (intro ok_rules ok_cases ok_modify_view ok_effect ok_fallback_start;
      (rule out_view_auth)?; simp add: out_view_def)

end

section \<open>Client input\<close>

text \<open>
  What the session code keeps of the client bytes is short unless the input is paused. The
  next locale adds the steps on the remnant and on the two flags of the client input.
\<close>

definition short :: "buffer \<Rightarrow> bool" where
  "short bs \<longleftrightarrow> parse_frame bs = P_again"

lemma short_Nil [simp]: "short []"
  by (simp add: short_def parse_frame_def)

lemma parse_frame_rest: "parse_frame bs = P_ok (f, n) \<Longrightarrow> length (drop n bs) < length bs"
  by (auto elim!: parse_frame_okE)

locale input_order = session_order +
  assumes R_remnant: "short bs \<or> c_input_paused c \<Longrightarrow> R c (c\<lparr>c_remnant := bs\<rparr>)"
    and R_unpause: "R c (c\<lparr>c_input_paused := False, c_remnant := []\<rparr>)"
    and R_unblock: "\<not> c_input_paused c \<Longrightarrow> R c (c\<lparr>c_client_read_blocked := False\<rparr>)"
begin

lemma ok_remnant: "short bs \<Longrightarrow> ok (modify (\<lambda>c. c\<lparr>c_remnant := bs\<rparr>))"
  by (rule ok_modify) (simp add: R_remnant)

lemma ok_keep_remnant: "short bs \<Longrightarrow> ok (do { modify (\<lambda>c. c\<lparr>c_remnant := bs\<rparr>); ret r })"
  by (intro ok_bind ok_remnant ok_ret)

text \<open>What follows an action: the input is paused, or the rest is processed.\<close>

lemma ok_when_paused:
  assumes "ok m"
  shows "ok (do { paused \<leftarrow> gets c_input_paused;
    if paused then do { modify (\<lambda>c. c\<lparr>c_remnant := bs\<rparr>); ret NGX_OK } else m })"
  using ok_run [OF assms] by (simp add: state_io_rel_def R_remnant)

lemma ok_process_frames: "ok resume \<Longrightarrow> length bs \<le> n \<Longrightarrow> ok (process_frames e resume n bs)"
proof (induction n arbitrary: bs)
  case 0
  then show ?case by (simp add: ok_keep_remnant)
next
  case (Suc n)
  show ?case
  proof (cases "parse_frame bs")
    case (P_ok x)
    then obtain f consumed where x: "x = (f, consumed)" "parse_frame bs = P_ok (f, consumed)"
      by (cases x) simp
    have "ok (process_frames e resume n (drop consumed bs))"
      using Suc parse_frame_rest [OF x(2)] by simp
    then have rest: "ok (do { paused \<leftarrow> gets c_input_paused;
        if paused then do { modify (\<lambda>c. c\<lparr>c_remnant := drop consumed bs\<rparr>); ret NGX_OK }
        else process_frames e resume n (drop consumed bs) })"
      by (rule ok_when_paused)
    show ?thesis
      by (subst process_frames.simps, simp only: x parsed.case prod.case,
          rule ok_bind [OF ok_gets], rule ok_handle_frame)
        (intro ok_bind [OF ok_session_actions_run] ok_prod ok_let ok_if ok_keep_remnant
          ok_bind [OF ok_only_if] ok_cache_peer_version rest ok_bind [OF ok_modify_view];
         simp add: out_view_def Suc.prems)
  qed (simp_all add: ok_keep_remnant short_def)
qed

lemma ok_process_client_bytes: "ok resume \<Longrightarrow> ok (process_client_bytes e resume data)"
  unfolding process_client_bytes_def
  by (intro ok_rules ok_cases ok_process_auth ok_process_frames) simp_all

lemma R_enable:
  assumes "\<not> c_input_paused c"
  shows "R c (snd (run_state (enable_client_read e) c))"
proof -
  have "ok (do { r \<leftarrow> ask (e_rc e); if r \<noteq> NGX_OK then ret NGX_ERROR
      else do { waiting \<leftarrow> gets (\<lambda>c. c_remnant c \<noteq> []); only_if waiting (perform Eff_post_client_read); ret NGX_OK } })"
    by (intro ok_rules ok_effect) simp
  from R_trans [OF R_unblock [OF assms] ok_run [OF this]] show ?thesis
    by (simp add: enable_client_read_def)
qed

lemma ok_input_resume_with:
  assumes "\<And>bs. ok (process bs)"
  shows "ok (input_resume_with e process)"
proof -
  have tail: "ok (do { r \<leftarrow> process bs; if r \<noteq> NGX_OK then ret r
      else do { paused \<leftarrow> gets c_input_paused; if paused then ret NGX_OK else enable_client_read e } })" for bs
  proof -
    have "ok (do { paused \<leftarrow> gets c_input_paused; if paused then ret NGX_OK else enable_client_read e })"
      by (simp add: state_io_rel_def R_refl R_enable)
    from ok_bind [OF assms ok_if [OF ok_ret this]] show ?thesis .
  qed
  have empty: "R c (snd (run_state (enable_client_read e) (c\<lparr>c_input_paused := False\<rparr>)))"
    if "c_remnant c = []" for c
  proof -
    have "R c (c\<lparr>c_input_paused := False\<rparr>)"
      using R_trans [OF R_unpause R_view] that by (simp add: out_view_def)
    then show ?thesis using R_trans R_enable [of "c\<lparr>c_input_paused := False\<rparr>"] by simp
  qed
  show ?thesis
    unfolding input_resume_with_def state_io_rel_def
    using R_trans [OF R_unpause ok_run [OF tail]] empty by (auto simp: R_refl)
qed

lemma ok_client_input_resume: "ok (perform Eff_unreached) \<Longrightarrow> ok (client_input_resume e n)"
proof (induction n)
  case (Suc n)
  then show ?case by (simp add: ok_input_resume_with ok_process_client_bytes)
qed (auto intro: ok_bind ok_ret)

lemma ok_client_write_handler: "ok resume \<Longrightarrow> ok (client_write_handler e resume is_client timedout)"
  unfolding client_write_handler_def
  by (intro ok_rules ok_view ok_fallback_write ok_drain ok_arm_or_finalize; simp add: out_view_def)

end

section \<open>Events\<close>

text \<open>
  What nginx calls on a connection after its set-up. Each event runs with the full
  \<open>ngx_anytls_client_input_resume\<close>.
\<close>

datatype event =
    Ev_client_read bool bool
  | Ev_client_write bool bool
  | Ev_write_timeout
  | Ev_upstream_read sptr
  | Ev_upstream_write sptr bool
  | Ev_udp_read sptr nat
  | Ev_uot_idle sptr
  | Ev_resolved sptr "sockaddr list option"

definition full_resume :: "env \<Rightarrow> rc M" where
  "full_resume e = client_input_resume e 2"

fun dispatch :: "env \<Rightarrow> event \<Rightarrow> unit M" where
  "dispatch e (Ev_client_read is_client timedout) = client_read_handler e (full_resume e) is_client timedout"
| "dispatch e (Ev_client_write is_client timedout) = client_write_handler e (full_resume e) is_client timedout"
| "dispatch e Ev_write_timeout = write_timeout_handler e (full_resume e)"
| "dispatch e (Ev_upstream_read st) = do { _ \<leftarrow> upstream_read_handler e (full_resume e) st; ret () }"
| "dispatch e (Ev_upstream_write st timedout) = upstream_write_handler e (full_resume e) st timedout"
| "dispatch e (Ev_udp_read st n) = do { _ \<leftarrow> udp_read_handler e (full_resume e) n st; ret () }"
| "dispatch e (Ev_uot_idle st) = uot_idle_timeout_handler e (full_resume e) st"
| "dispatch e (Ev_resolved st answer) = resolve_handler e (full_resume e) st answer"

text \<open>
  The states of a connection: its set-up, then any sequence of events while it is open. An
  event names a stream that exists, or has existed.
\<close>

fun event_stream :: "event \<Rightarrow> sptr option" where
  "event_stream (Ev_upstream_read st) = Some st"
| "event_stream (Ev_upstream_write st timedout) = Some st"
| "event_stream (Ev_udp_read st n) = Some st"
| "event_stream (Ev_uot_idle st) = Some st"
| "event_stream (Ev_resolved st answer) = Some st"
| "event_stream _ = None"

inductive reachable :: "env \<Rightarrow> conf \<Rightarrow> conn \<Rightarrow> bool" for e conf where
  start: "reachable e conf (snd (run_state (connection_start e (full_resume e)) (conn_init conf)))"
| event: "reachable e conf c \<Longrightarrow> \<not> c_closing c \<Longrightarrow> (\<forall>st. event_stream ev = Some st \<longrightarrow> st < c_next c)
    \<Longrightarrow> reachable e conf (snd (run_state (dispatch e ev) c))"

context input_order
begin

lemma ok_dispatch_other:
  "ok (full_resume e) \<Longrightarrow> no_empty_datagram e \<Longrightarrow> \<forall>a b. ev \<noteq> Ev_client_read a b \<Longrightarrow> ok (dispatch e ev)"
  by (cases ev, blast; simp only: dispatch.simps upstream_read_handler_def write_timeout_handler_def;
      (intro ok_rules ok_arm_or_finalize ok_client_write_handler
        ok_on_read_ready ok_upstream_write_handler ok_udp_read_handler ok_uot_idle ok_resolve_handler)?; simp)

end

text \<open>Orders that do not look at the bounds of the read buffer.\<close>

locale conn_order = input_order +
  assumes seen_overflow: "\<not> seen Eff_overflow"
begin

lemma ok_overflow: "ok (perform Eff_overflow)"
  by (rule ok_perform [OF seen_overflow])

lemma ok_client_read_loop: "ok resume \<Longrightarrow> ok (client_read_loop e resume n bytes)"
proof (induction n arbitrary: bytes)
  case (Suc n)
  show ?case
    by (subst client_read_loop.simps)
      (intro ok_rules ok_overflow ok_cases ok_view ok_remnant ok_events ok_arm_or_finalize ok_process_client_bytes Suc;
       simp add: out_view_def)
qed (simp add: ok_ret)

lemma ok_client_read_handler: "ok resume \<Longrightarrow> ok (client_read_handler e resume is_client timedout)"
  unfolding client_read_handler_def
  by (intro ok_rules ok_view ok_effect ok_arm_or_finalize ok_fallback_read ok_client_read_loop;
      simp add: out_view_def)

lemma ok_connection_start: "ok resume \<Longrightarrow> ok (connection_start e resume)"
  unfolding connection_start_def by (intro ok_rules ok_effect ok_client_read_handler; simp)

lemma ok_dispatch: "ok (full_resume e) \<Longrightarrow> no_empty_datagram e \<Longrightarrow> ok (dispatch e ev)"
  using ok_dispatch_other [of e ev] ok_client_read_handler [of "full_resume e" e] by (cases ev) auto

theorem reachable_order:
  assumes "reachable e conf c" "no_empty_datagram e" "ok (full_resume e)"
  shows "R (conn_init conf) c"
  using assms
proof (induction rule: reachable.induct)
  case start
  then show ?case by (intro ok_run ok_connection_start)
next
  case (event c ev)
  then show ?case using R_trans ok_run [OF ok_dispatch] by blast
qed

end

end
