(* ===== verification/Example_Run.thy ===== *)
theory Example_Run
  imports Conn_Order "HOL-Library.Code_Target_Numeral"
begin

text \<open>
  A concrete environment and configuration: a client that authenticates with the only user's
  hash, and sockets that take every byte. The theorems about reachable states are applied to
  runs of the model on them. \<open>script\<close> is what the client connection answers to a read, by
  the number of questions the environment has been asked.
\<close>

definition ex_env :: "(nat \<Rightarrow> recv) \<Rightarrow> env" where
  "ex_env script =
     \<lparr>e_alloc = \<lambda>_. True, e_rc = \<lambda>_. NGX_OK, e_flag = \<lambda>_. False, e_send = \<lambda>_ n. IO_bytes n,
      e_chain = \<lambda>_ n. Some n, e_recv = \<lambda>t _. script t, e_udp_recv = \<lambda>_ _. Recv_again,
      e_now = \<lambda>_. 0, e_ntop = \<lambda>_ ip. ip, e_sock_ntop = \<lambda>_. [], e_strlchr = \<lambda>_ _. None,
      e_dec = \<lambda>_. [48], e_url = \<lambda>_ _ _. None, e_resolve_start = \<lambda>_. Resolve_null,
      e_connect = \<lambda>_. NGX_OK, e_udp = \<lambda>_ _. True, e_sendto = \<lambda>_ n. Some n,
      e_recvfrom = \<lambda>_ _. Dgram_again, e_http_time = [], e_fallback_target = \<lambda>_. Some [],
      e_fallback_url = \<lambda>_ _. Some [[]], e_proxy_header = \<lambda>_. None\<rparr>"

definition ex_conf :: conf where
  "ex_conf =
     \<lparr>cf_users = [\<lparr>u_name = bytes_of ''user'', u_hash = replicate 32 0\<rparr>], cf_padding_data = [],
      cf_padding_md5 = [], cf_fallback = False, cf_fallback_proxy_protocol = False,
      cf_fallback_connect_timeout = 0, cf_upstream_connect_timeout = 0, cf_handshake_timeout = 0,
      cf_buffer_size = 16384, cf_max_streams = 4, cf_max_uot_streams = 1, cf_max_pending_output = 65536,
      cf_max_pending_input = 65536, cf_resolver = False, cf_resolver_timeout = 0, cf_write_timeout = 0,
      cf_uot_idle_timeout = 0, cf_uot_pending_packets = 1, cf_uot_pending_bytes = 1000\<rparr>"

text \<open>The 34 bytes of the authentication block without padding.\<close>

definition ex_auth :: buffer where
  "ex_auth = replicate 34 0"

definition ex_start :: "env \<Rightarrow> conn" where
  "ex_start e = snd (run_state (connection_start e (full_resume e)) (conn_init ex_conf))"

definition ex_step :: "env \<Rightarrow> event \<Rightarrow> conn \<Rightarrow> conn" where
  "ex_step e ev c = snd (run_state (dispatch e ev) c)"

lemma ex_start_reachable: "reachable e ex_conf (ex_start e)"
  unfolding ex_start_def by (rule reachable.start)

lemma ex_step_reachable:
  "reachable e conf c \<Longrightarrow> \<not> c_closing c \<Longrightarrow> (\<And>st. event_stream ev = Some st \<Longrightarrow> st < c_next c)
    \<Longrightarrow> reachable e conf (ex_step e ev c)"
  unfolding ex_step_def by (rule reachable.event) auto

lemma ex_no_empty_datagram: "no_empty_datagram (ex_env script)"
  by (simp add: no_empty_datagram_def ex_env_def)

text \<open>The client authenticates and asks for a heartbeat; then its socket becomes writable.\<close>

definition ex_heart :: env where
  "ex_heart = ex_env (\<lambda>t. if t = 0 then Recv_bytes (ex_auth @ [8, 0, 0, 0, 5, 0, 0]) else Recv_again)"

definition ex_heart_run :: conn where
  "ex_heart_run = ex_step ex_heart (Ev_client_write True False) (ex_start ex_heart)"

lemma ex_heart_open: "\<not> c_closing (ex_start ex_heart)"
  by code_simp

lemma ex_heart_trace: "c_trace ex_heart_run = [Eff_post_client_write, Eff_client_write [9, 0, 0, 0, 5, 0, 0]]"
  by code_simp

lemma ex_heart_reachable: "reachable ex_heart ex_conf ex_heart_run"
  unfolding ex_heart_run_def
  by (intro ex_step_reachable ex_start_reachable ex_heart_open) simp

end
