(* ===== verification/Client_Wire.thy ===== *)
theory Client_Wire
  imports Example_Run
begin

text \<open>
  What the client receives: the bytes written to the client connection, followed by the
  bytes of frames that are being sent, are at every moment a sequence of whole frames. The
  claim is an order on states (the stream of bytes is extended by whole frames), shown for
  each operation of the client multiplexer and for everything it calls.
\<close>

section \<open>The moving parts of a flush\<close>

lemma wire_bytes_consume: "wire_bytes (consume k fs) = drop k (wire_bytes fs)"
  by (induction fs arbitrary: k) (auto simp: wire_bytes_def)

lemma wire_bytes_append [simp]: "wire_bytes (fs @ gs) = wire_bytes fs @ wire_bytes gs"
  by (simp add: wire_bytes_def)

lemma wire_bytes_Cons [simp]: "wire_bytes (f # fs) = of_bytes f @ wire_bytes fs"
  by (simp add: wire_bytes_def)

lemma wire_bytes_Nil [simp]: "wire_bytes [] = []"
  by (simp add: wire_bytes_def)

text \<open>The fields of the output side after dropping the frames of a stream.\<close>

lemma drop_out_frames_fields:
  assumes "snd (run_state (drop_out_frames st fs) c) = c'"
  shows "c_control_out c' = c_control_out c \<and> c_data_out c' = c_data_out c \<and> c_sending c' = c_sending c
    \<and> c_unsent c' = c_unsent c \<and> c_trace c' = c_trace c \<and> c_conf c' = c_conf c
    \<and> c_remnant c' = c_remnant c \<and> c_next c' = c_next c
    \<and> c_pending_output c' = c_pending_output c - sum_list (map of_length fs)
    \<and> c_frames c' = c_frames c - length fs
    \<and> c_mem c' = (c_mem c)(st := (c_mem c st)\<lparr>st_queued_frames := st_queued_frames (c_mem c st) - length fs\<rparr>)"
  using assms
proof (induction fs arbitrary: c)
  case (Cons f fs)
  define c1 where "c1 = c\<lparr>c_pending_output := c_pending_output c - of_length f, c_frames := c_frames c - 1,
    c_mem := (c_mem c)(st := (c_mem c st)\<lparr>st_queued_frames := st_queued_frames (c_mem c st) - 1\<rparr>)\<rparr>"
  define c2 where "c2 = (case of_recycle f of None \<Rightarrow> c1 | Some b \<Rightarrow> cache_read_buf b c1)"
  have v: "out_view c2 = out_view c1" "c_mem c2 = c_mem c1" "c_next c2 = c_next c1"
    unfolding c2_def by (auto simp: out_view_def split: option.split)
  have "snd (run_state (drop_out_frames st fs) c2) = c'"
    using Cons.prems by (simp add: c1_def c2_def upstream_free_read_buf_def split: option.splits)
  from Cons.IH [OF this] v show ?case
    by (simp add: c1_def out_view_def fun_eq_iff)
qed simp

lemma stream_drop_out_fields:
  assumes "snd (run_state (stream_drop_out st) c) = c'"
  shows "c_control_out c' = c_control_out c \<and> c_data_out c' = c_data_out c \<and> c_sending c' = c_sending c
    \<and> c_unsent c' = c_unsent c \<and> c_trace c' = c_trace c \<and> c_conf c' = c_conf c
    \<and> c_remnant c' = c_remnant c \<and> c_next c' = c_next c
    \<and> c_pending_output c' = c_pending_output c - sum_list (map of_length (st_out (c_mem c st)))
    \<and> c_frames c' = c_frames c - length (st_out (c_mem c st))
    \<and> c_mem c' = (c_mem c)(st := (c_mem c st)
        \<lparr>st_queued_frames := st_queued_frames (c_mem c st) - length (st_out (c_mem c st)),
         st_out := [], st_pending_out := 0\<rparr>)"
proof -
  define c1 where "c1 = snd (run_state (drop_out_frames st (st_out (c_mem c st))) c)"
  have "c' = c1\<lparr>c_mem := (c_mem c1)(st := (c_mem c1 st)\<lparr>st_out := [], st_pending_out := 0\<rparr>)\<rparr>"
    using assms by (simp add: stream_drop_out_def c1_def split: prod.splits)
  with drop_out_frames_fields [OF c1_def [symmetric]] show ?thesis by simp
qed

lemma schedule_round_fields:
  assumes "snd (run_state schedule_round c) = c'" and "st = hd (c_ready_streams c)"
  shows "c_control_out c' = c_control_out c \<and> c_data_out c' = c_data_out c @ take 1 (st_out (c_mem c st))
    \<and> c_sending c' = c_sending c \<and> c_unsent c' = c_unsent c \<and> c_trace c' = c_trace c
    \<and> c_conf c' = c_conf c \<and> c_remnant c' = c_remnant c \<and> c_next c' = c_next c
    \<and> c_pending_output c' = c_pending_output c \<and> c_frames c' = c_frames c
    \<and> (\<forall>p. st_out (c_mem c' p) = (if p = st then tl (st_out (c_mem c st)) else st_out (c_mem c p)))
    \<and> (\<forall>p. st_queued_frames (c_mem c' p) = st_queued_frames (c_mem c p))"
proof (cases "st_out (c_mem c st)")
  case Nil
  then show ?thesis
    using assms by (auto simp: schedule_round_def stream_remove_ready_def only_if_def)
next
  case (Cons f fs)
  then show ?thesis
    using assms
    by (auto simp: schedule_round_def stream_remove_ready_def only_if_def queue_connection_frame_def
        client_mux_mark_ready_def)
qed

lemma frame_done_fields:
  assumes "snd (run_state (frame_done f) c) = c'"
  shows "c_control_out c' = c_control_out c \<and> c_data_out c' = c_data_out c \<and> c_sending c' = c_sending c
    \<and> c_unsent c' = c_unsent c \<and> c_trace c' = c_trace c \<and> c_conf c' = c_conf c
    \<and> c_remnant c' = c_remnant c \<and> c_next c' = c_next c
    \<and> c_pending_output c' = c_pending_output c - of_length f \<and> c_frames c' = c_frames c - 1
    \<and> (\<forall>p. st_out (c_mem c' p) = st_out (c_mem c p))
    \<and> (\<forall>p. st_queued_frames (c_mem c' p) =
          (if of_stream f = Some p then st_queued_frames (c_mem c p) - 1 else st_queued_frames (c_mem c p)))"
  unfolding assms [symmetric]
  by (cases "of_stream f"; cases "of_recycle f"; cases "of_fin f")
    (simp_all add: frame_done_def free_frame_def upstream_free_read_buf_def only_if_def)

text \<open>Where a new frame goes.\<close>

lemma place_frame_fields:
  assumes "snd (run_state (place_frame st f) c) = c'"
  shows "c_sending c' = c_sending c \<and> c_unsent c' = c_unsent c \<and> c_trace c' = c_trace c
    \<and> c_conf c' = c_conf c \<and> c_remnant c' = c_remnant c \<and> c_next c' = c_next c
    \<and> c_pending_output c' = c_pending_output c + of_length f \<and> c_frames c' = Suc (c_frames c)
    \<and> (if st = None \<or> of_blocked f
       then c_control_out c' = c_control_out c @ [f] \<and> c_data_out c' = c_data_out c
         \<and> (\<forall>p. st_out (c_mem c' p) = st_out (c_mem c p))
       else c_control_out c' = c_control_out c
         \<and> (st_out (c_mem c (the st)) = [] \<and> c_data_out c' = c_data_out c @ [f]
              \<and> (\<forall>p. st_out (c_mem c' p) = st_out (c_mem c p))
            \<or> c_data_out c' = c_data_out c
              \<and> (\<forall>p. st_out (c_mem c' p) = (if p = the st then st_out (c_mem c p) @ [f] else st_out (c_mem c p)))))"
proof (cases st)
  case None
  then show ?thesis
    using assms by (auto simp: place_frame_def queue_blocked_frame_def)
next
  case (Some p)
  show ?thesis
    unfolding assms [symmetric] Some place_frame_def
    by (simp add: only_if_def queue_blocked_frame_def queue_connection_frame_def client_mux_mark_ready_def Let_def)
qed

section \<open>Whole frames\<close>

definition written :: "effect list \<Rightarrow> buffer" where
  "written tr = concat (map (\<lambda>x. case x of Eff_client_write bs \<Rightarrow> bs | _ \<Rightarrow> []) tr)"

definition is_client_write :: "effect \<Rightarrow> bool" where
  "is_client_write x \<longleftrightarrow> (\<exists>bs. x = Eff_client_write bs)"

text \<open>The bytes the client has received or will receive from the frames being sent.\<close>

definition client_stream :: "conn \<Rightarrow> buffer" where
  "client_stream c = written (c_trace c) @ wire_bytes (c_sending c)"

definition whole_frame :: "out_frame \<Rightarrow> bool" where
  "whole_frame f \<longleftrightarrow> (\<exists>m. wf_message m \<and> of_bytes f = encode_message m)"

definition whole_queues :: "conn \<Rightarrow> bool" where
  "whole_queues c \<longleftrightarrow>
     (\<forall>f\<in>set (c_control_out c). whole_frame f) \<and> (\<forall>f\<in>set (c_data_out c). whole_frame f)
     \<and> (\<forall>p. \<forall>f\<in>set (st_out (c_mem c p)). whole_frame f)"

definition wire_order :: "conn \<Rightarrow> conn \<Rightarrow> bool" where
  "wire_order c c' \<longleftrightarrow>
     (whole_queues c \<longrightarrow> whole_queues c'
        \<and> (\<exists>ms. list_all wf_message ms
             \<and> client_stream c' = client_stream c @ concat (map encode_message ms)))"

lemma written_snoc: "written (tr @ [x]) = written tr @ (case x of Eff_client_write bs \<Rightarrow> bs | _ \<Rightarrow> [])"
  by (simp add: written_def)

lemma wire_bytes_whole:
  "(\<forall>f\<in>set fs. whole_frame f) \<Longrightarrow> \<exists>ms. list_all wf_message ms \<and> wire_bytes fs = concat (map encode_message ms)"
proof (induction fs)
  case (Cons f fs)
  then obtain ms m where "list_all wf_message ms" "wire_bytes fs = concat (map encode_message ms)"
    "wf_message m" "of_bytes f = encode_message m"
    by (auto simp: whole_frame_def)
  then show ?case by (intro exI [of _ "m # ms"]) simp
qed (auto intro: exI [of _ "[]"])

lemma wire_order_same:
  assumes "whole_queues c \<Longrightarrow> whole_queues c'" "client_stream c' = client_stream c"
  shows "wire_order c c'"
  unfolding wire_order_def using assms by (intro impI conjI exI [of _ "[]"]) simp_all

lemma set_tl: "x \<in> set (tl xs) \<Longrightarrow> x \<in> set xs"
  by (cases xs) auto

lemma whole_queues_cong:
  "set (c_control_out c') \<subseteq> set (c_control_out c) \<Longrightarrow> set (c_data_out c') \<subseteq> set (c_data_out c)
    \<Longrightarrow> (\<And>p. set (st_out (c_mem c' p)) \<subseteq> set (st_out (c_mem c p))) \<Longrightarrow> whole_queues c \<Longrightarrow> whole_queues c'"
  unfolding whole_queues_def by blast

lemma framed_whole:
  assumes "framed f"
  shows "whole_frame (queued_frame st f)"
proof -
  obtain sid data where "of_bytes f = write_frame_header (of_cmd f) sid (word_of_nat (length data)) @ data"
    "length data = of_length f" "of_length f \<le> NGX_ANYTLS_MAX_FRAME_DATA"
    "of_cmd f \<le> NGX_ANYTLS_CMD_SERVER_SETTINGS"
    using assms unfolding framed_def by blast
  then show ?thesis
    unfolding whole_frame_def queued_frame_def wf_message_def encode_message_def
    by (intro exI [of _ "\<lparr>m_cmd = of_cmd f, m_stream_id = sid, m_payload = data\<rparr>"]) simp
qed

lemma place_frame_sets:
  assumes "snd (run_state (place_frame st f) c) = c'"
  shows "set (c_control_out c') \<subseteq> insert f (set (c_control_out c))"
    and "set (c_data_out c') \<subseteq> insert f (set (c_data_out c))"
    and "set (st_out (c_mem c' p)) \<subseteq> insert f (set (st_out (c_mem c p)))"
  using place_frame_fields [OF assms] by (cases "p = the st"; auto split: if_splits)+

lemma wire_place:
  assumes "framed f"
  shows "wire_order c (snd (run_state (place_frame st (queued_frame st f)) c))" (is "wire_order c ?c'")
proof (rule wire_order_same)
  note whole = framed_whole [OF assms, of st]
  note sets = place_frame_sets [of st "queued_frame st f" c ?c', OF refl]
  show "whole_queues ?c'" if "whole_queues c"
    using that whole sets unfolding whole_queues_def by blast
  show "client_stream ?c' = client_stream c"
    using place_frame_fields [of st "queued_frame st f" c ?c', OF refl] by (simp add: client_stream_def)
qed

interpretation wire_mux: final_order wire_order is_client_write
proof
  fix c c' c'' :: conn and t x and st :: sptr and sp e f fs sid bs
  show "wire_order c c" by (simp add: wire_order_same)
  show "wire_order c c''" if "wire_order c c'" "wire_order c' c''"
  proof -
    have "\<exists>ms. list_all wf_message ms \<and> client_stream c'' = client_stream c @ concat (map encode_message ms)"
      if "list_all wf_message ms1" "client_stream c' = client_stream c @ concat (map encode_message ms1)"
        "list_all wf_message ms2" "client_stream c'' = client_stream c' @ concat (map encode_message ms2)"
      for ms1 ms2
      using that by (intro exI [of _ "ms1 @ ms2"]) simp
    then show ?thesis using that unfolding wire_order_def by blast
  qed
  show "wire_order c (c\<lparr>c_tick := t\<rparr>)"
    by (rule wire_order_same) (auto simp: client_stream_def whole_queues_def)
  show "wire_order c (c\<lparr>c_trace := c_trace c @ [x]\<rparr>)" if "\<not> is_client_write x"
    using that
    by (intro wire_order_same)
      (auto simp: client_stream_def whole_queues_def written_snoc is_client_write_def split: effect.split)
  show "wire_order c c'" if "out_view c = out_view c'"
    using that by (intro wire_order_same)
      (auto simp: client_stream_def whole_queues_def out_view_def fun_eq_iff)
  show "wire_order c (snd (run_state (stream_drop_out st) c))"
    using stream_drop_out_fields [of st c, OF refl]
    by (intro wire_order_same) (auto simp: client_stream_def whole_queues_def split: if_splits)
  show "wire_order c (snd (run_state schedule_round c))" if "c_ready_streams c \<noteq> []"
    using schedule_round_fields [of c, OF refl refl]
    by (intro wire_order_same)
      (auto simp: client_stream_def whole_queues_def dest: in_set_takeD set_tl split: if_splits)
  show "wire_order c (fill_sending c)"
  proof (cases "c_unsent c = Unsent_null")
    case True
    have "\<exists>ms. list_all wf_message ms
        \<and> wire_bytes (c_control_out c @ c_data_out c) = concat (map encode_message ms)" if "whole_queues c"
      using that by (intro wire_bytes_whole) (auto simp: whole_queues_def)
    then show ?thesis
      using True by (auto simp: wire_order_def fill_sending_def client_stream_def whole_queues_def)
  qed (simp add: fill_sending_def wire_order_same)
  show "wire_order c (snd (run_state (write_chain e) c))"
    by (rule wire_order_same)
      (auto simp: write_chain_def whole_queues_def client_stream_def written_snoc wire_bytes_consume
        split: option.splits)
  show "wire_order c (snd (run_state (frame_done f) (c\<lparr>c_sending := fs\<rparr>)))"
    if "c_sending c = f # fs" "of_bytes f = []"
    using frame_done_fields [of f "c\<lparr>c_sending := fs\<rparr>", OF refl] that
    by (intro wire_order_same) (auto simp: client_stream_def whole_queues_def)
  show "wire_order c (c\<lparr>c_closing := True\<rparr>)"
    "wire_order c (c\<lparr>c_input_paused := True, c_client_read_blocked := True\<rparr>)"
    by (rule wire_order_same; auto simp: client_stream_def whole_queues_def)+
qed (auto simp: is_client_write_def)

interpretation wire: conn_order wire_order is_client_write
proof
  fix c :: conn and sp f sid bs x e resume code
  show "wire_order c (snd (run_state (place_frame sp (queued_frame sp f)) c))" if "framed f"
    by (rule wire_place [OF that])
  show "wire_order c (snd (run_state (new_stream sid) c))"
    by (rule wire_order_same) (auto simp: new_stream_def client_stream_def whole_queues_def stream_zero_def)
  show "state_io_rel wire_order (finalize_rc e resume code)" if "state_io_rel wire_order resume"
    by (rule wire_mux.ok_finalize [OF that])
  show "wire_order c (c\<lparr>c_remnant := bs\<rparr>)" "wire_order c (c\<lparr>c_input_paused := False, c_remnant := []\<rparr>)"
    "wire_order c (c\<lparr>c_client_read_blocked := False\<rparr>)"
    by (rule wire_order_same; auto simp: client_stream_def whole_queues_def)+
qed (auto simp: is_client_write_def)

lemma wire_full_resume: "wire_mux.ok (full_resume e)"
  unfolding full_resume_def
  by (intro wire.ok_client_input_resume wire_mux.ok_perform) (simp add: is_client_write_def)

section \<open>What the client reads\<close>

lemma encode_prefix:
  assumes "list_all wf_message ms" and "bs @ more_bs = concat (map encode_message ms)"
  shows "\<exists>ms1 ms2 rest. ms = ms1 @ ms2 \<and> bs = concat (map encode_message ms1) @ rest \<and> parse_frame rest = P_again"
  using assms
proof (induction ms arbitrary: bs)
  case Nil
  then show ?case by (simp add: parse_frame_def)
next
  case (Cons m ms)
  show ?case
  proof (cases "length bs < length (encode_message m)")
    case True
    then have "parse_frame bs = P_again"
    proof -
      have "parse_frame bs \<noteq> P_ok (f, n)" for f n
      proof
        assume p: "parse_frame bs = P_ok (f, n)"
        have "parse_frame (bs @ more_bs) = P_ok (message_frame m, length (encode_message m))"
          using Cons.prems parse_frame_encode [of m "concat (map encode_message ms)"] by simp
        with parse_frame_append [OF p, of more_bs] parse_frame_okE [OF p] True show False by simp
      qed
      then show ?thesis by (cases "parse_frame bs") auto
    qed
    then show ?thesis by (intro exI [of _ "[]"] exI [of _ "m # ms"] exI [of _ bs]) simp
  next
    case False
    define bs' where "bs' = drop (length (encode_message m)) bs"
    have bs: "bs = encode_message m @ bs'" "bs' @ more_bs = concat (map encode_message ms)"
      using False arg_cong [OF Cons.prems(2), of "take (length (encode_message m))"]
        arg_cong [OF Cons.prems(2), of "drop (length (encode_message m))"]
      by (simp_all add: bs'_def) (metis append_take_drop_id)
    from Cons.IH [OF _ bs(2)] Cons.prems(1) obtain ms1 ms2 rest where "ms = ms1 @ ms2"
      "bs' = concat (map encode_message ms1) @ rest" "parse_frame rest = P_again"
      by auto
    with bs(1) show ?thesis
      by (intro exI [of _ "m # ms1"] exI [of _ ms2] exI [of _ rest]) simp
  qed
qed



end
