(* ===== verification/Output_Order.thy ===== *)
theory Output_Order
  imports Client_Wire
begin

text \<open>
  The output towards the client as a whole: what is queued, for the
  connection and in the queues of its streams, is counted.
\<close>

section \<open>Sums over the streams\<close>

text \<open>
  The weight of all queued frames. Only finitely many streams have frames of their own;
  \<open>S\<close> is a set that holds them.
\<close>

definition weigh :: "(out_frame \<Rightarrow> nat) \<Rightarrow> out_frame list \<Rightarrow> nat" where
  "weigh w fs = sum_list (map w fs)"

definition load :: "(out_frame \<Rightarrow> nat) \<Rightarrow> sptr set \<Rightarrow> conn \<Rightarrow> nat" where
  "load w S c = weigh w (c_control_out c) + weigh w (c_data_out c) + weigh w (c_sending c)
     + (\<Sum>p\<in>S. weigh w (st_out (c_mem c p)))"

definition covers :: "sptr set \<Rightarrow> conn \<Rightarrow> bool" where
  "covers S c \<longleftrightarrow> finite S \<and> (\<forall>p. p \<notin> S \<longrightarrow> st_out (c_mem c p) = [])"

definition within :: "(out_frame \<Rightarrow> nat) \<Rightarrow> nat \<Rightarrow> conn \<Rightarrow> bool" where
  "within w n c \<longleftrightarrow> (\<exists>S. covers S c \<and> load w S c \<le> n)"

lemma weigh_simps [simp]: "weigh w [] = 0" "weigh w (f # fs) = w f + weigh w fs"
  "weigh w (fs @ gs) = weigh w fs + weigh w gs"
  by (simp_all add: weigh_def)

lemma sum_at:
  assumes "finite S" "p \<in> S" "\<And>q. q \<in> S \<Longrightarrow> q \<noteq> p \<Longrightarrow> g' q = g q"
  shows "(\<Sum>q\<in>S. g' q) + g p = (\<Sum>q\<in>S. g q) + (g' p :: nat)"
proof -
  have "(\<Sum>q\<in>S - {p}. g' q) = (\<Sum>q\<in>S - {p}. g q)" by (rule sum.cong) (use assms in auto)
  then show ?thesis using assms(1,2) by (simp add: sum.remove)
qed

text \<open>A weight that a write does not change.\<close>

definition steady :: "(out_frame \<Rightarrow> nat) \<Rightarrow> bool" where
  "steady w \<longleftrightarrow> (\<forall>f bs. w (f\<lparr>of_bytes := bs\<rparr>) = w f)"

lemma weigh_consume: "steady w \<Longrightarrow> weigh w (consume k fs) = weigh w fs"
  by (induction fs arbitrary: k) (auto simp: steady_def)

lemma steady_weights [simp]: "steady of_length" "steady (\<lambda>_. n)"
  by (simp_all add: steady_def)

lemma within_view: "within w n c \<Longrightarrow> out_view c = out_view c' \<Longrightarrow> within w n c'"
  by (auto simp: within_def covers_def load_def out_view_def fun_eq_iff)

text \<open>The steps of \<open>conn_order\<close>; \<open>n\<close> is the counter that follows the weight.\<close>

lemma within_drop:
  assumes "within w n c"
  shows "within w (n - weigh w (st_out (c_mem c st))) (snd (run_state (stream_drop_out st) c))"
proof -
  let ?c' = "snd (run_state (stream_drop_out st) c)"
  note f = stream_drop_out_fields [of st c, OF refl]
  from assms obtain S where S: "covers S c" "load w S c \<le> n" by (auto simp: within_def)
  have "load w S ?c' \<le> n - weigh w (st_out (c_mem c st))"
  proof (cases "st \<in> S")
    case True
    then have "(\<Sum>p\<in>S. weigh w (st_out (c_mem ?c' p))) + weigh w (st_out (c_mem c st))
        = (\<Sum>p\<in>S. weigh w (st_out (c_mem c p))) + weigh w (st_out (c_mem ?c' st))"
      using S(1) f by (intro sum_at) (auto simp: covers_def)
    then show ?thesis using S(2) f by (simp add: load_def)
  next
    case False
    then have "st_out (c_mem c st) = []" "(\<Sum>p\<in>S. weigh w (st_out (c_mem ?c' p))) = (\<Sum>p\<in>S. weigh w (st_out (c_mem c p)))"
      using S(1) f by (auto simp: covers_def intro!: sum.cong)
    then show ?thesis using S(2) f by (simp add: load_def)
  qed
  moreover have "covers S ?c'" using S(1) f by (auto simp: covers_def)
  ultimately show ?thesis by (auto simp: within_def)
qed

lemma within_round:
  assumes "within w n c"
  shows "within w n (snd (run_state schedule_round c))"
proof -
  let ?c' = "snd (run_state schedule_round c)" and ?st = "hd (c_ready_streams c)"
  note f = schedule_round_fields [of c, OF refl refl]
  from assms obtain S where S: "covers S c" "load w S c \<le> n" by (auto simp: within_def)
  have "load w S ?c' = load w S c"
  proof (cases "?st \<in> S")
    case True
    then have "(\<Sum>p\<in>S. weigh w (st_out (c_mem ?c' p))) + weigh w (st_out (c_mem c ?st))
        = (\<Sum>p\<in>S. weigh w (st_out (c_mem c p))) + weigh w (st_out (c_mem ?c' ?st))"
      using S(1) f by (intro sum_at) (auto simp: covers_def)
    moreover have "weigh w (take 1 xs) + weigh w (tl xs) = weigh w xs" for xs
      by (cases xs) auto
    ultimately show ?thesis using f
      by (simp add: load_def) (smt (verit) add.assoc add.commute add_left_cancel)
  next
    case False
    then have "st_out (c_mem c ?st) = []" "(\<Sum>p\<in>S. weigh w (st_out (c_mem ?c' p))) = (\<Sum>p\<in>S. weigh w (st_out (c_mem c p)))"
      using S(1) f by (auto simp: covers_def intro!: sum.cong)
    then show ?thesis using f by (simp add: load_def)
  qed
  moreover have "covers S ?c'" using S(1) f by (auto simp: covers_def)
  ultimately show ?thesis using S(2) by (auto simp: within_def)
qed

lemma within_place:
  assumes "within w n c" and run: "snd (run_state (place_frame st f) c) = c'"
  shows "within w (n + w f) c'"
proof -
  note f = place_frame_fields [OF run]
  from assms obtain S where S: "covers S c" "load w S c \<le> n" by (auto simp: within_def)
  let ?S = "insert (the st) S"
  have big: "covers ?S c" "load w ?S c = load w S c"
    using S(1) by (auto simp: covers_def load_def sum.insert_if)
  have other: "st_out (c_mem c' p) = st_out (c_mem c p)" if "p \<noteq> the st" for p
    using f that by (cases "st = None \<or> of_blocked f") auto
  have "covers ?S c'" using big(1) other by (simp add: covers_def)
  moreover have "load w ?S c' = load w ?S c + w f"
  proof -
    have "(\<Sum>p\<in>?S. weigh w (st_out (c_mem c' p))) + weigh w (st_out (c_mem c (the st)))
        = (\<Sum>p\<in>?S. weigh w (st_out (c_mem c p))) + weigh w (st_out (c_mem c' (the st)))"
      using big(1) other by (intro sum_at) (auto simp: covers_def)
    moreover have "weigh w (c_control_out c') + weigh w (c_data_out c') + weigh w (st_out (c_mem c' (the st)))
        = weigh w (c_control_out c) + weigh w (c_data_out c) + weigh w (st_out (c_mem c (the st))) + w f"
      using f by (cases "st = None \<or> of_blocked f") auto
    moreover have "c_sending c' = c_sending c" using f by simp
    ultimately show ?thesis by (simp add: load_def)
  qed
  ultimately show ?thesis using S(2) big(2) by (auto simp: within_def)
qed

lemma within_new: "within w n c \<Longrightarrow> within w n (snd (run_state (new_stream sid) c))"
proof -
  assume "within w n c"
  then obtain S where S: "covers S c" "load w S c \<le> n" by (auto simp: within_def)
  let ?c' = "snd (run_state (new_stream sid) c)"
  have "st_out (c_mem ?c' p) = (if p = c_next c then [] else st_out (c_mem c p))" for p
    by (simp add: new_stream_def stream_zero_def)
  then have "covers S ?c'" "(\<Sum>p\<in>S. weigh w (st_out (c_mem ?c' p))) \<le> (\<Sum>p\<in>S. weigh w (st_out (c_mem c p)))"
    using S(1) by (auto simp: covers_def intro: sum_mono)
  then show ?thesis using S(2) by (auto simp: within_def load_def new_stream_def intro!: exI [of _ S])
qed

lemma within_load:
  assumes "within w n c" "\<And>S. covers S c \<Longrightarrow> covers S c' \<and> load w S c' \<le> load w S c"
  shows "within w n c'"
  using assms unfolding within_def by (meson le_trans)

lemma within_fill: "within w n c \<Longrightarrow> within w n (fill_sending c)"
  by (erule within_load) (simp add: covers_def load_def fill_sending_def)

lemma within_write: "steady w \<Longrightarrow> within w n c \<Longrightarrow> within w n (snd (run_state (write_chain e) c))"
  by (erule within_load) (simp add: covers_def load_def write_chain_def weigh_consume split: option.split)

lemma within_done:
  assumes "within w n c" "c_sending c = f # fs"
  shows "within w (n - w f) (snd (run_state (frame_done f) (c\<lparr>c_sending := fs\<rparr>)))"
  using assms frame_done_fields [of f "c\<lparr>c_sending := fs\<rparr>", OF refl]
  by (auto simp: within_def covers_def load_def)

section \<open>What is queued is counted\<close>

definition counted :: "conn \<Rightarrow> bool" where
  "counted c \<longleftrightarrow> within of_length (c_pending_output c) c \<and> within (\<lambda>_. 1) (c_frames c) c
     \<and> c_frames c \<le> NGX_ANYTLS_MAX_OUT_FRAMES"

interpretation acct_mux: final_order "\<lambda>c c'. counted c \<longrightarrow> counted c'" "\<lambda>_. False"
proof
  fix c c' :: conn and t x and st :: sptr and sp e f fs sid bs
  show "counted c \<longrightarrow> counted (c\<lparr>c_tick := t\<rparr>)" "counted c \<longrightarrow> counted (c\<lparr>c_trace := c_trace c @ [x]\<rparr>)"
    "counted c \<longrightarrow> counted (c\<lparr>c_closing := True\<rparr>)"
    "counted c \<longrightarrow> counted (c\<lparr>c_input_paused := True, c_client_read_blocked := True\<rparr>)"
    by (simp_all add: counted_def within_def covers_def load_def)
  show "counted c \<longrightarrow> counted c'" if "out_view c = out_view c'"
    using that within_view [OF _ that] by (auto simp: counted_def out_view_def)
  show "counted c \<longrightarrow> counted (snd (run_state (stream_drop_out st) c))"
    using stream_drop_out_fields [of st c, OF refl] within_drop [of of_length _ c st] within_drop [of "\<lambda>_. 1" _ c st]
    by (auto simp: counted_def weigh_def sum_list_triv)
  show "counted c \<longrightarrow> counted (snd (run_state schedule_round c))"
    using schedule_round_fields [of c, OF refl refl] by (auto simp: counted_def within_round)
  show "counted c \<longrightarrow> counted (fill_sending c)"
    using within_fill [of _ _ c] by (auto simp: counted_def) (simp_all add: fill_sending_def)
  show "counted c \<longrightarrow> counted (snd (run_state (write_chain e) c))"
  proof -
    have "c_pending_output (snd (run_state (write_chain e) c)) = c_pending_output c"
      "c_frames (snd (run_state (write_chain e) c)) = c_frames c"
      by (simp_all add: write_chain_def split: option.split)
    then show ?thesis by (simp add: counted_def within_write)
  qed
  show "counted c \<longrightarrow> counted (snd (run_state (frame_done f) (c\<lparr>c_sending := fs\<rparr>)))"
    if "c_sending c = f # fs"
    using frame_done_fields [of f "c\<lparr>c_sending := fs\<rparr>", OF refl] within_done [OF _ that]
    by (auto simp: counted_def)
qed auto

interpretation acct: conn_order "\<lambda>c c'. counted c \<longrightarrow> counted c'" "\<lambda>_. False"
proof
  fix c :: conn and sp f sid bs e resume code
  show "counted c \<longrightarrow> counted (c\<lparr>c_remnant := bs\<rparr>)" "counted c \<longrightarrow> counted (c\<lparr>c_client_read_blocked := False\<rparr>)"
    "counted c \<longrightarrow> counted (c\<lparr>c_input_paused := False, c_remnant := []\<rparr>)"
    by (simp_all add: counted_def within_def covers_def load_def)
  show "acct_mux.ok (finalize_rc e resume code)" if "acct_mux.ok resume"
    by (rule acct_mux.ok_finalize [OF that])
  show "counted c \<longrightarrow> counted (snd (run_state (place_frame sp (queued_frame sp f)) c))"
    if "c_frames c < NGX_ANYTLS_MAX_OUT_FRAMES"
    using place_frame_fields [of sp "queued_frame sp f" c, OF refl] that
      within_place [OF _ refl, where w = of_length and n = "c_pending_output c" and c = c and st = sp
        and f = "queued_frame sp f"]
      within_place [OF _ refl, where w = "\<lambda>_. 1" and n = "c_frames c" and c = c and st = sp
        and f = "queued_frame sp f"]
    by (auto simp: counted_def)
  show "counted c \<longrightarrow> counted (snd (run_state (new_stream sid) c))"
    using within_new [of _ _ c sid] by (auto simp: counted_def new_stream_def)
qed auto

lemma acct_full_resume: "acct_mux.ok (full_resume e)"
  unfolding full_resume_def by (intro acct.ok_client_input_resume acct_mux.ok_perform) simp

lemma within_finite:
  assumes "within w n c" "finite T"
  shows "load w T c \<le> n"
proof -
  from assms(1) obtain S where S: "covers S c" "load w S c \<le> n" by (auto simp: within_def)
  have "(\<Sum>p\<in>T. weigh w (st_out (c_mem c p))) = (\<Sum>p\<in>T \<inter> S. weigh w (st_out (c_mem c p)))"
    using S(1) assms(2) by (intro sum.mono_neutral_right) (auto simp: covers_def)
  also have "\<dots> \<le> (\<Sum>p\<in>S. weigh w (st_out (c_mem c p)))"
    using S(1) by (intro sum_mono2) (auto simp: covers_def)
  finally show ?thesis using S(2) by (simp add: load_def)
qed



end
