(* ===== verification/Client_Input.thy ===== *)
theory Client_Input
  imports Example_Run
begin

text \<open>
  Claims about the client input: the recursion through \<open>ngx_anytls_client_input_resume\<close>
  is at most two calls deep, the buffer the client socket is read into is large enough, and
  the session is finalized once. They are orders on a small part of the state, the view below,
  and every order on that part is a \<open>session_order\<close>.
\<close>

section \<open>Orders on the input side\<close>

definition in_view where
  "in_view c = (c_read_buf_size c, c_read_buf_cap c, c_remnant c, c_input_paused c,
     c_client_read_blocked c, c_closing c, c_trace c)"

locale view_order = step_order +
  assumes R_in: "in_view c = in_view c' \<Longrightarrow> R c c'"
    and R_in_pause: "R c (c\<lparr>c_input_paused := True, c_client_read_blocked := True\<rparr>)"
    and seen_marked: "seen x \<Longrightarrow> marked x"
    and seen_no_write: "\<not> seen (Eff_client_write bs)"
begin

lemma ok_in_modify: "(\<And>c. in_view (f c) = in_view c) \<Longrightarrow> ok (modify f)"
  by (rule ok_modify, rule R_in) simp

lemma ok_in_upd_stream: "ok (upd_stream st f)"
  by (rule ok_upd_stream, rule R_in) (simp add: in_view_def)

lemmas ok_in = ok_in_modify ok_in_upd_stream

lemma ok_in_cache: "ok (upstream_free_read_buf b)" "ok (free_frame f)" "ok (client_mux_mark_ready st)"
  "ok (stream_remove_ready st)" "ok (queue_connection_frame f)" "ok (queue_blocked_frame f)"
  unfolding upstream_free_read_buf_def free_frame_def client_mux_mark_ready_def stream_remove_ready_def
    queue_connection_frame_def queue_blocked_frame_def
  by (intro ok_rules ok_in; simp add: in_view_def)+

lemma ok_in_drop: "ok (drop_out_frames st fs)"
  by (induction fs) (auto intro!: ok_rules ok_in ok_in_cache simp: in_view_def)

lemma ok_in_frames: "ok (stream_drop_out st)" "ok (frame_done f)" "ok (place_frame sp f)" "ok (new_stream sid)"
  unfolding stream_drop_out_def frame_done_def place_frame_def new_stream_def
  by (intro ok_rules ok_in ok_in_cache ok_in_drop; simp add: in_view_def)+

lemma ok_in_round: "ok schedule_round"
  unfolding schedule_round_def
  by (intro ok_bind [OF ok_gets] ok_bind [OF ok_in_cache(4)] ok_bind [OF ok_sget])
    (auto intro!: ok_rules ok_in ok_in_cache simp: in_view_def split: list.split)

lemma ok_in_write: "ok (write_chain e)"
  unfolding write_chain_def
  by (intro ok_rules ok_in; simp add: in_view_def seen_no_write)

end

sublocale view_order \<subseteq> mux_order
proof
  fix c c' :: conn and st :: sptr and f fs e and t
  show "R c c'" if "out_view c = out_view c'"
    using that by (intro R_in) (simp add: out_view_def in_view_def)
  show "R c (c\<lparr>c_input_paused := True, c_client_read_blocked := True\<rparr>)" by (rule R_in_pause)
  show "R c (snd (run_state (stream_drop_out st) c))" by (rule ok_run [OF ok_in_frames(1)])
  show "R c (snd (run_state schedule_round c))" by (rule ok_run [OF ok_in_round])
  show "R c (fill_sending c)" by (rule R_in) (simp add: in_view_def fill_sending_def)
  show "R c (snd (run_state (write_chain e) c))" by (rule ok_run [OF ok_in_write])
  show "R c (snd (run_state (frame_done f) (c\<lparr>c_sending := fs\<rparr>)))"
    by (rule R_trans [OF R_in ok_run [OF ok_in_frames(2)]]) (simp add: in_view_def)
qed (use seen_marked in fastforce)+

text \<open>Such an order that finalizing a session respects, and the common case of it.\<close>

locale session_view = view_order +
  assumes R_session_end: "state_io_rel R resume \<Longrightarrow> state_io_rel R (finalize_rc e resume code)"

sublocale session_view \<subseteq> session_order
  by unfold_locales (auto intro: ok_run ok_in_frames seen_marked R_session_end)

locale plain_view = view_order +
  assumes R_in_closing: "R c (c\<lparr>c_closing := True\<rparr>)"
    and seen_no_finalize: "\<not> seen (Eff_finalize_session n)"

sublocale plain_view \<subseteq> final_order
  by unfold_locales (simp_all add: R_in_closing seen_no_finalize)

sublocale plain_view \<subseteq> session_view
  by unfold_locales (rule ok_finalize)

section \<open>The depth of the recursion\<close>

definition deep :: "conn \<Rightarrow> bool" where
  "deep c \<longleftrightarrow> Eff_unreached \<in> set (c_trace c)"

text \<open>While bytes are processed the remnant is empty, and then no resume comes to the bottom.\<close>

definition depth_order :: "conn \<Rightarrow> conn \<Rightarrow> bool" where
  "depth_order c c' \<longleftrightarrow> (c_remnant c = [] \<longrightarrow> c_remnant c' = [] \<and> (deep c' \<longrightarrow> deep c))"

interpretation depth: plain_view depth_order "\<lambda>x. x = Eff_unreached"
  by unfold_locales (auto simp: depth_order_def deep_def in_view_def)

lemma depth_enable: "depth.ok (enable_client_read e)"
  unfolding enable_client_read_def
  by (intro depth.ok_rules depth.ok_effect depth.ok_modify)
    (auto simp: depth_order_def deep_def)

lemma depth_resume: "depth.ok (input_resume_with e process)"
proof -
  have "depth_order c (snd (run_state (enable_client_read e) (c\<lparr>c_input_paused := False\<rparr>)))" for c
    using depth.ok_run [OF depth_enable, of "c\<lparr>c_input_paused := False\<rparr>"]
    by (simp add: depth_order_def deep_def)
  then show ?thesis
    by (auto simp: state_io_rel_def input_resume_with_def depth.R_refl) (simp_all add: depth_order_def)
qed

text \<open>The processing of bytes: as before, but what is left becomes the remnant.\<close>

definition ends :: "'a M \<Rightarrow> bool" where
  "ends m \<longleftrightarrow> (\<forall>c. c_remnant c = [] \<longrightarrow> deep (snd (run_state m c)) \<longrightarrow> deep c)"

lemma ends_ok: "depth.ok m \<Longrightarrow> ends m"
  by (auto simp: ends_def state_io_rel_def depth_order_def)

lemma ends_remnant: "ends (do { modify (\<lambda>c. c\<lparr>c_remnant := bs\<rparr>); ret r })"
  by (simp add: ends_def deep_def)

lemma ends_bind_yields:
  "depth.ok m \<Longrightarrow> yields P m \<Longrightarrow> (\<And>a. P a \<Longrightarrow> ends (f a)) \<Longrightarrow> ends (State_Monad.bind m f)"
  unfolding ends_def state_io_rel_def yields_def depth_order_def
  by (auto split: prod.splits) (metis fst_conv snd_conv)

lemma ends_bind: "depth.ok m \<Longrightarrow> (\<And>a. ends (f a)) \<Longrightarrow> ends (State_Monad.bind m f)"
  by (rule ends_bind_yields [where P = "\<lambda>_. True"]) (simp_all add: yields_def)

lemma ends_if: "(b \<Longrightarrow> ends m) \<Longrightarrow> (\<not> b \<Longrightarrow> ends n) \<Longrightarrow> ends (if b then m else n)"
  by simp

lemma ends_prod: "(\<And>x y. ends (f x y)) \<Longrightarrow> ends (case p of (x, y) \<Rightarrow> f x y)"
  by (simp split: prod.split)

lemma ends_let: "ends (f v) \<Longrightarrow> ends (let x = v in f x)"
  by simp

lemma ends_process_frames: "depth.ok resume \<Longrightarrow> ends (process_frames e resume n bs)"
proof (induction n arbitrary: bs)
  case 0
  show ?case by (simp add: ends_remnant)
next
  case (Suc n)
  have step: "ends (do { (r, core', acts) \<leftarrow> ask (\<lambda>t. handle_frame (e_strlchr e) (\<lambda>i. e_alloc e (t + i)) core f);
      k r core' acts })"
    if "\<And>r core' acts. \<forall>a\<in>set acts. act_cmd a \<le> NGX_ANYTLS_CMD_SERVER_SETTINGS \<Longrightarrow> ends (k r core' acts)"
    for core f and k :: "rc \<Rightarrow> session_core \<Rightarrow> action list \<Rightarrow> rc M"
    by (rule ends_bind_yields [OF depth.ok_ask yields_ask,
          where P = "\<lambda>(r, core', acts). \<forall>a\<in>set acts. act_cmd a \<le> NGX_ANYTLS_CMD_SERVER_SETTINGS"])
      (auto simp: handle_frame_cmds split: prod.splits intro: that)
  show ?case
  proof (cases "parse_frame bs")
    case (P_ok x)
    then show ?thesis
      by (cases x, simp only: process_frames.simps parsed.case prod.case)
        (rule ends_bind [OF depth.ok_gets], rule step,
         intro ends_bind [OF depth.ok_session_actions_run] ends_prod ends_let ends_if ends_remnant
           ends_bind [OF depth.ok_only_if] depth.ok_cache_peer_version ends_bind [OF depth.ok_gets] Suc.IH
           ends_bind [OF depth.ok_modify_view]; simp add: out_view_def Suc.prems)
  qed (simp_all add: ends_remnant)
qed

lemma ends_process_client_bytes: "depth.ok resume \<Longrightarrow> ends (process_client_bytes e resume data)"
proof -
  assume "depth.ok resume"
  then have "ends (case x of Inl r \<Rightarrow> ret r
      | Inr bs \<Rightarrow> if bs = [] then ret NGX_OK else process_frames e resume (length bs) bs)" for x
    by (cases x) (simp_all add: ends_ok depth.ok_ret ends_process_frames)
  then show ?thesis
    unfolding process_client_bytes_def
    by (intro ends_bind depth.ok_gets depth.ok_if depth.ok_ret depth.ok_process_auth)
qed

text \<open>At the top a call may find any remnant.\<close>

interpretation shallow_view: plain_view "\<lambda>c c'. deep c' \<longrightarrow> deep c" "\<lambda>x. x = Eff_unreached"
  by unfold_locales (auto simp: deep_def in_view_def)

interpretation shallow: conn_order "\<lambda>c c'. deep c' \<longrightarrow> deep c" "\<lambda>x. x = Eff_unreached"
  by unfold_locales (auto simp: deep_def)

lemma shallow_resume_with:
  assumes "\<And>bs. ends (process bs)"
  shows "shallow_view.ok (input_resume_with e process)"
proof -
  have enable: "deep (snd (run_state (enable_client_read e) c)) \<longrightarrow> deep c" for c
    by (simp add: enable_client_read_def deep_def only_if_def)
  have tail: "deep (snd (run_state (do { r \<leftarrow> process bs; if r \<noteq> NGX_OK then ret r
      else do { paused \<leftarrow> gets c_input_paused; if paused then ret NGX_OK else enable_client_read e } }) c)) \<longrightarrow> deep c"
    if "c_remnant c = []" for c bs
  proof -
    obtain r c1 where run: "run_state (process bs) c = (r, c1)" by fastforce
    have "deep c1 \<longrightarrow> deep c"
      using assms [of bs, unfolded ends_def, rule_format, OF that] run by simp
    then show ?thesis using run enable [of c1] by simp
  qed
  have "deep (snd (run_state (input_resume_with e process) c)) \<longrightarrow> deep c" for c
    using enable [of "c\<lparr>c_input_paused := False\<rparr>"]
      tail [of "c\<lparr>c_input_paused := False, c_remnant := []\<rparr>" "c_remnant c"]
    unfolding input_resume_with_def by (simp add: deep_def)
  then show ?thesis by (simp add: state_io_rel_def)
qed

lemma shallow_full_resume: "shallow_view.ok (full_resume e)"
  unfolding full_resume_def numeral_2_eq_2 client_input_resume.simps
  by (intro shallow_resume_with ends_process_client_bytes depth_resume)



section \<open>The read buffer\<close>

definition roomy :: "conn \<Rightarrow> bool" where
  "roomy c \<longleftrightarrow> (c_input_paused c \<longrightarrow> c_client_read_blocked c) \<and> (c_input_paused c \<or> short (c_remnant c))
     \<and> c_read_buf_cap c = c_read_buf_size c + NGX_ANYTLS_FRAME_HEADER_LEN + NGX_ANYTLS_MAX_FRAME_DATA
     \<and> Eff_overflow \<notin> set (c_trace c)"

lemma short_length: "short bs \<Longrightarrow> length bs < NGX_ANYTLS_FRAME_HEADER_LEN + NGX_ANYTLS_MAX_FRAME_DATA + 1"
  using unat_u16_less [of "be16 (bs ! 5) (bs ! 6)"]
  by (auto simp: short_def parse_frame_def Let_def split: if_splits)

interpretation room_view: plain_view "\<lambda>c c'. roomy c \<longrightarrow> roomy c'" "\<lambda>x. x = Eff_overflow"
  by unfold_locales (auto simp: roomy_def in_view_def)

interpretation room: input_order "\<lambda>c c'. roomy c \<longrightarrow> roomy c'" "\<lambda>x. x = Eff_overflow"
  by unfold_locales (auto simp: roomy_def)

lemma room_full_resume: "room_view.ok (full_resume e)"
  unfolding full_resume_def by (intro room.ok_client_input_resume room_view.ok_perform) simp

text \<open>A claim about a loop that is entered with the input not paused.\<close>

definition open_ok :: "'a M \<Rightarrow> bool" where
  "open_ok m \<longleftrightarrow> (\<forall>c. roomy c \<and> \<not> c_input_paused c \<longrightarrow> roomy (snd (run_state m c)))"

lemma open_ok_weaken: "room_view.ok m \<Longrightarrow> open_ok m"
  by (simp add: open_ok_def state_io_rel_def)

lemma open_ok_unblocked:
  assumes "open_ok m"
  shows "room_view.ok (do { blocked \<leftarrow> gets c_client_read_blocked; if blocked then ret x else if b then ret y else m })"
  using assms by (auto simp: open_ok_def state_io_rel_def roomy_def)

lemma open_ok_read:
  assumes "\<And>r. room_view.ok (f r)"
  shows "open_ok (do { sz \<leftarrow> gets c_read_buf_size;
    fits \<leftarrow> gets (\<lambda>c. length (c_remnant c) + sz \<le> c_read_buf_cap c);
    only_if (\<not> fits) (perform Eff_overflow);
    r \<leftarrow> transport_read e sz;
    f r })"
  unfolding open_ok_def
proof (intro allI impI)
  fix c assume c: "roomy c \<and> \<not> c_input_paused c"
  then have "length (c_remnant c) + c_read_buf_size c \<le> c_read_buf_cap c"
    using short_length [of "c_remnant c"] by (auto simp: roomy_def)
  moreover have "room_view.ok (do { r \<leftarrow> transport_read e sz; f r })" for sz
    by (intro room_view.ok_bind room_view.ok_events assms)
  ultimately show "roomy (snd (run_state (do { sz \<leftarrow> gets c_read_buf_size;
    fits \<leftarrow> gets (\<lambda>c. length (c_remnant c) + sz \<le> c_read_buf_cap c);
    only_if (\<not> fits) (perform Eff_overflow);
    r \<leftarrow> transport_read e sz;
    f r }) c))"
    using c by (simp add: only_if_def state_io_rel_def)
qed

lemma open_ok_read_loop: "open_ok (client_read_loop e (full_resume e) n bytes)"
proof (induction n arbitrary: bytes)
  case 0
  show ?case by (simp add: open_ok_weaken room_view.ok_ret)
next
  case (Suc n)
  note rest = open_ok_unblocked [OF Suc.IH]
  show ?case
    by (subst client_read_loop.simps, rule open_ok_read)
      (intro rest room_view.ok_rules room_view.ok_cases room_view.ok_view room.ok_remnant room_view.ok_arm_or_finalize
        room.ok_process_client_bytes room_full_resume; simp add: out_view_def)
qed

lemma room_read_handler: "room_view.ok (client_read_handler e (full_resume e) is_client timedout)"
proof -
  let ?after = "\<lambda>x. case x of None \<Rightarrow> ret () | Some exhausted \<Rightarrow> do {
    blocked \<leftarrow> gets c_client_read_blocked;
    only_if (\<not> blocked) (do { _ \<leftarrow> ask (e_rc e); only_if exhausted (perform Eff_post_client_read_next) }) }"
  have after: "room_view.ok (?after x)" for x
    by (intro room_view.ok_rules room_view.ok_effect; simp)
  have "roomy (snd (run_state (do { x \<leftarrow> client_read_loop e (full_resume e) n 0; ?after x }) c))"
    if "roomy c" "\<not> c_input_paused c" for c n
  proof -
    obtain x c1 where run: "run_state (client_read_loop e (full_resume e) n 0) c = (x, c1)" by fastforce
    have "roomy c1"
      using open_ok_read_loop [of e n 0, unfolded open_ok_def, rule_format, of c] that run by simp
    then show ?thesis using room_view.ok_run [OF after, of c1 x] run by simp
  qed
  then have main: "room_view.ok (do { c \<leftarrow> gets (\<lambda>c. c);
      if c_input_paused c then do { r \<leftarrow> full_resume e; only_if (r \<noteq> NGX_OK) (finalize e (full_resume e)) }
      else if c_client_read_blocked c then ret ()
      else do { x \<leftarrow> client_read_loop e (full_resume e) NGX_ANYTLS_CLIENT_READ_BUDGET_LOOPS 0; ?after x } })"
    using room_view.ok_run [OF room_view.ok_bind [OF room_full_resume room_view.ok_only_if
        [OF room_view.ok_arm_or_finalize(2) [OF room_full_resume]]]]
    by (simp add: state_io_rel_def)
  show ?thesis
    unfolding client_read_handler_def
    by (rule room_view.ok_bind [OF room_view.ok_gets], rule room_view.ok_if, rule room_view.ok_bind [OF room_view.ok_modify_view])
      (simp add: out_view_def, rule room_view.ok_arm_or_finalize(2) [OF room_full_resume],
       rule room_view.ok_if, rule room_view.ok_fallback_read [OF room_full_resume], rule main)
qed



section \<open>The end of the session\<close>

definition ends_session :: "effect \<Rightarrow> bool" where
  "ends_session x \<longleftrightarrow> (\<exists>code. x = Eff_finalize_session code)"

definition finalizations :: "conn \<Rightarrow> nat" where
  "finalizations c = length (filter ends_session (c_trace c))"

definition settled :: "conn \<Rightarrow> bool" where
  "settled c \<longleftrightarrow> finalizations c = (if c_closing c then 1 else 0)"

definition once_order :: "conn \<Rightarrow> conn \<Rightarrow> bool" where
  "once_order c c' \<longleftrightarrow> (c_closing c \<longrightarrow> c_closing c' \<and> finalizations c' = finalizations c)
     \<and> (settled c \<longrightarrow> settled c')"

interpretation once_view: view_order once_order ends_session
  by unfold_locales (auto simp: once_order_def settled_def finalizations_def ends_session_def in_view_def)

lemma once_finalize:
  assumes "once_view.ok resume"
  shows "once_view.ok (finalize_rc e resume code)"
  unfolding state_io_rel_def
proof
  fix c
  obtain c1 where run: "run_state (close_connection e resume) (c\<lparr>c_closing := True\<rparr>) = ((), c1)"
    by (cases "run_state (close_connection e resume) (c\<lparr>c_closing := True\<rparr>)") simp
  have "once_order (c\<lparr>c_closing := True\<rparr>) c1"
    using once_view.ok_run [OF once_view.ok_close_connection [OF assms], of "c\<lparr>c_closing := True\<rparr>" e] run by simp
  then have "c_closing c1" "finalizations c1 = finalizations c"
    by (simp_all add: once_order_def finalizations_def)
  then show "once_order c (snd (run_state (finalize_rc e resume code) c))"
    using run
    by (auto simp: finalize_rc_def once_order_def settled_def finalizations_def ends_session_def)
qed

interpretation once_session: session_view once_order ends_session
  by unfold_locales (rule once_finalize)

interpretation once: conn_order once_order ends_session
  by unfold_locales (auto simp: once_order_def settled_def finalizations_def ends_session_def)

lemma once_full_resume: "once_view.ok (full_resume e)"
  unfolding full_resume_def
  by (intro once.ok_client_input_resume once_view.ok_perform) (simp add: ends_session_def)



end
