(* ===== verification/Empty_Datagram.thy ===== *)
theory Empty_Datagram
  imports Client_Wire
begin

text \<open>
  What the hypothesis of \<open>client_receives_frames\<close> excludes: an empty datagram on a
  connected UoT stream makes a frame that is not whole.
\<close>

lemma queue_prepared_placed:
  assumes "run_state (queue_prepared_frame (Some st) f) c = (NGX_OK, c')"
  shows "c_data_out c' = c_data_out (snd (run_state (place_frame (Some st) (queued_frame (Some st) f)) c))
    \<and> c_mem c' = c_mem (snd (run_state (place_frame (Some st) (queued_frame (Some st) f)) c))"
  using assms
  by (auto simp: queue_prepared_frame_def client_mux_post_write_def arm_write_timer_def only_if_def
      split: prod.splits if_splits)

text \<open>
  C10: The hypothesis about empty datagrams cannot be dropped. When a connected UoT socket delivers
  an empty datagram, the read that follows announces two bytes and has none; the frame made of
  it is queued as a header for two bytes of payload with nothing behind it, and the client takes
  the first two bytes of the next frame for them.
\<close>

theorem empty_datagram_desync:
  assumes "mux_is_uot (c_mem c st)" and "st_uot_mode (c_mem c st) = ADDR_UOT_V2_CONNECT" and "2 < sz"
    and "e_udp_recv e (c_tick c) (sz - 2) = Recv_eof"
    and "run_state (do {
        x \<leftarrow> read_upstream e resume st sz cap;
        case x of Inl b \<Rightarrow> ret NGX_DECLINED
        | Inr (bytes, len) \<Rightarrow> client_mux_queue_chain_frame e (Some st) NGX_ANYTLS_CMD_PSH sid
            (Some \<lparr>ch_bytes = bytes, ch_cap = cap, ch_headroom = True\<rparr>) len True True }) c = (NGX_OK, c')"
  shows "\<exists>f. of_bytes f = write_frame_header NGX_ANYTLS_CMD_PSH sid 2
    \<and> (c_data_out c' = c_data_out c @ [f] \<or> st_out (c_mem c' st) = st_out (c_mem c st) @ [f])"
proof -
  define c1 where "c1 = c\<lparr>c_tick := Suc (c_tick c)\<rparr>"
  have "run_state (read_upstream e resume st sz cap) c = (Inr ([], 2), c1)"
    using assms(1-4) by (simp add: read_upstream_def transport_read_udp_def recv_upto_def c1_def)
  with assms(5) have queue: "run_state (client_mux_queue_chain_frame e (Some st) NGX_ANYTLS_CMD_PSH sid
      (Some \<lparr>ch_bytes = [], ch_cap = cap, ch_headroom = True\<rparr>) 2 True True) c1 = (NGX_OK, c')"
    by simp
  define f where "f = frame_zero\<lparr>of_cmd := NGX_ANYTLS_CMD_PSH, of_fin := False, of_blocked := False,
    of_length := 2, of_recycle := Some cap, of_bytes := write_frame_header NGX_ANYTLS_CMD_PSH sid 2\<rparr>"
  define c2 where "c2 = (if c_free_frames c > 0 then c1\<lparr>c_free_frames := c_free_frames c - 1\<rparr>
    else c1\<lparr>c_tick := Suc (c_tick c1)\<rparr>)"
  have c2: "c_data_out c2 = c_data_out c" "c_mem c2 = c_mem c"
    by (simp_all add: c2_def c1_def)
  have run: "run_state (queue_prepared_frame (Some st) f) c2 = (NGX_OK, c')"
    using queue
    by (cases "c_free_frames c > 0")
      (auto simp: client_mux_queue_chain_frame_def get_frame_def c1_def c2_def f_def Let_def split: if_splits)
  from queue_prepared_placed [OF run] show ?thesis
    using place_frame_fields [of "Some st" "queued_frame (Some st) f" c2, OF refl] c2
    by (intro exI [of _ "queued_frame (Some st) f"]) (auto simp: queued_frame_def f_def frame_zero_def)
qed

text \<open>A connected UoT stream whose socket delivers an empty datagram.\<close>

definition ex_uot :: conn where
  "ex_uot = (conn_init ex_conf)
     \<lparr>c_mem := \<lambda>_. stream_zero\<lparr>st_upstream_type := UPSTREAM_UOT, st_uot_mode := ADDR_UOT_V2_CONNECT\<rparr>\<rparr>"

definition ex_empty :: env where
  "ex_empty = (ex_env (\<lambda>_. Recv_again))\<lparr>e_udp_recv := \<lambda>_ _. Recv_eof\<rparr>"

definition ex_queue :: "rc M" where
  "ex_queue = do {
     x \<leftarrow> read_upstream ex_empty (ret NGX_OK) 0 100 107;
     case x of Inl b \<Rightarrow> ret NGX_DECLINED
     | Inr (bytes, len) \<Rightarrow> client_mux_queue_chain_frame ex_empty (Some 0) NGX_ANYTLS_CMD_PSH 1
         (Some \<lparr>ch_bytes = bytes, ch_cap = 107, ch_headroom = True\<rparr>) len True True }"

theorem empty_datagram_desync_witness:
  "\<exists>f. of_bytes f = write_frame_header NGX_ANYTLS_CMD_PSH 1 2
    \<and> (c_data_out (snd (run_state ex_queue ex_uot)) = c_data_out ex_uot @ [f]
      \<or> st_out (c_mem (snd (run_state ex_queue ex_uot)) 0) = st_out (c_mem ex_uot 0) @ [f])"
proof (rule empty_datagram_desync [of ex_uot 0 100 ex_empty "ret NGX_OK" 107])
  have "fst (run_state ex_queue ex_uot) = NGX_OK" by code_simp
  then show "run_state (do {
        x \<leftarrow> read_upstream ex_empty (ret NGX_OK) 0 100 107;
        case x of Inl b \<Rightarrow> ret NGX_DECLINED
        | Inr (bytes, len) \<Rightarrow> client_mux_queue_chain_frame ex_empty (Some 0) NGX_ANYTLS_CMD_PSH 1
            (Some \<lparr>ch_bytes = bytes, ch_cap = 107, ch_headroom = True\<rparr>) len True True }) ex_uot
      = (NGX_OK, snd (run_state ex_queue ex_uot))"
    by (simp only: ex_queue_def [symmetric] prod_eq_iff fst_conv snd_conv)
qed (simp_all add: ex_uot_def ex_empty_def mux_is_uot_def)

end
