(* ===== verification/Upstream_Order.thy ===== *)
theory Upstream_Order
  imports Example_Run "HOL-Library.Sublist"
begin

text \<open>
  The order of the bytes a target receives. \<open>sent_to\<close> is what was written to the target of a
  stream, \<open>upstream_bytes\<close> adds what waits in the queue of the stream.
\<close>

fun write_to :: "sptr \<Rightarrow> effect \<Rightarrow> buffer" where
  "write_to st (Eff_upstream_write p bs) = (if p = st then bs else [])"
| "write_to st _ = []"

definition sent_to :: "sptr \<Rightarrow> conn \<Rightarrow> buffer" where
  "sent_to st c = concat (map (write_to st) (c_trace c))"

definition queued_bytes :: "pending list \<Rightarrow> buffer" where
  "queued_bytes ps = concat (map p_left ps)"

definition upstream_bytes :: "sptr \<Rightarrow> conn \<Rightarrow> buffer" where
  "upstream_bytes st c = sent_to st c @ queued_bytes (st_pending_in (c_mem c st))"

definition wf_pending :: "pending list \<Rightarrow> bool" where
  "wf_pending ps \<longleftrightarrow> list_all (\<lambda>p. p_sent p \<le> length (p_data p)) ps"

lemma sent_to_simps [simp]:
  "sent_to st (c\<lparr>c_trace := c_trace c @ [x]\<rparr>) = sent_to st c @ write_to st x"
  "sent_to st (c\<lparr>c_mem := m\<rparr>) = sent_to st c" "sent_to st (c\<lparr>c_pending_input := n\<rparr>) = sent_to st c"
  "sent_to st (c\<lparr>c_tick := t\<rparr>) = sent_to st c"
  by (simp_all add: sent_to_def)

lemma sent_to_cong: "c_trace c' = c_trace c \<Longrightarrow> sent_to st c' = sent_to st c"
  by (simp add: sent_to_def)

text \<open>
  Two states that do not differ for the target, while no client bytes are kept for later. Both
  orders below speak about connections whose remnant is empty: resuming the input then does
  not process client bytes.
\<close>

definition still :: "sptr \<Rightarrow> conn \<Rightarrow> conn \<Rightarrow> bool" where
  "still st c c' \<longleftrightarrow> (c_remnant c = [] \<longrightarrow> c_remnant c' = []) \<and> (c_remnant c = [] \<longrightarrow> sent_to st c' = sent_to st c
     \<and> st_pending_in (c_mem c' st) = st_pending_in (c_mem c st))"

interpretation still: step_order "still st" "\<lambda>x. write_to st x \<noteq> []" for st
  by unfold_locales (auto simp: still_def sent_to_def)

lemma still_modify:
  "(\<And>c. c_remnant (f c) = c_remnant c \<and> c_trace (f c) = c_trace c \<and> c_mem (f c) = c_mem c)
    \<Longrightarrow> state_io_rel (still st) (modify f)"
  by (rule still.ok_modify) (simp add: still_def sent_to_def)

lemma still_upd_stream:
  "(\<And>s. st_pending_in (f s) = st_pending_in s) \<Longrightarrow> state_io_rel (still st) (upd_stream p f)"
  by (rule still.ok_upd_stream) (simp add: still_def sent_to_def)

lemmas still_rules = still.ok_rules still_modify still_upd_stream

text \<open>Resuming the client input when nothing is kept.\<close>

lemma still_resume: "state_io_rel (still st) (full_resume e)"
  unfolding state_io_rel_def still_def
  by (auto simp: full_resume_def numeral_2_eq_2 input_resume_with_def enable_client_read_def only_if_def sent_to_def)

section \<open>Operations that do not touch the queue\<close>

lemma still_small:
  "state_io_rel (still st) (add_bytes_sent p n)" "state_io_rel (still st) (arm_write e)"
  "state_io_rel (still st) (disarm_write e)" "state_io_rel (still st) (upstream_free_pending p x)"
  "state_io_rel (still st) (upstream_alloc_pending_buf e n)" "state_io_rel (still st) (stream_pool e p)"
  "state_io_rel (still st) (client_input_pause e)" "state_io_rel (still st) (upstream_block_input e p)"
  unfolding add_bytes_sent_def arm_write_def disarm_write_def upstream_free_pending_def upstream_free_pending_buf_def
    upstream_alloc_pending_buf_def stream_pool_def client_input_pause_def upstream_block_input_def
  by (intro still_rules; simp)+

lemma still_update_input:
  "state_io_rel (still st) resume \<Longrightarrow> state_io_rel (still st) (upstream_update_input_state resume p)"
  unfolding upstream_update_input_state_def by (intro still_rules; simp)

text \<open>An operation that keeps still, before any other.\<close>

definition fifo :: "sptr \<Rightarrow> buffer \<Rightarrow> bool \<Rightarrow> conn \<Rightarrow> bool" where
  "fifo st bs failed c \<longleftrightarrow> c_remnant c = [] \<and> wf_pending (st_pending_in (c_mem c st))
     \<and> prefix (sent_to st c) bs \<and> (\<not> failed \<longrightarrow> upstream_bytes st c = bs)"

lemma fifo_still: "still st c c' \<Longrightarrow> fifo st bs failed c \<Longrightarrow> fifo st bs failed c'"
  by (simp add: fifo_def still_def upstream_bytes_def)

lemma fifo_run:
  "state_io_rel (still st) m \<Longrightarrow> fifo st bs failed c \<Longrightarrow> fifo st bs failed (snd (run_state m c))"
  unfolding state_io_rel_def using fifo_still by blast

lemma fifo_weaken: "fifo st bs False c \<Longrightarrow> fifo st bs failed c"
  by (simp add: fifo_def)

section \<open>Marking bytes as sent\<close>

abbreviation "pend st c \<equiv> st_pending_in (c_mem c st)"

lemma queued_simps [simp]:
  "queued_bytes [] = []" "queued_bytes (p # ps) = p_left p @ queued_bytes ps"
  "queued_bytes (ps @ qs) = queued_bytes ps @ queued_bytes qs"
  by (simp_all add: queued_bytes_def)

lemma wf_pending_simps [simp]:
  "wf_pending []" "wf_pending (p # ps) \<longleftrightarrow> p_sent p \<le> length (p_data p) \<and> wf_pending ps"
  "wf_pending (ps @ qs) \<longleftrightarrow> wf_pending ps \<and> wf_pending qs"
  by (simp_all add: wf_pending_def)

lemma length_p_left: "length (p_left p) = length (p_data p) - p_sent p"
  by (simp add: p_left_def)

lemma still_wp:
  assumes "state_io_rel (still st) m" "c_remnant c = []"
    and "\<And>a c'. c_remnant c' = [] \<Longrightarrow> sent_to st c' = sent_to st c \<Longrightarrow> pend st c' = pend st c \<Longrightarrow> Q a c'"
  shows "wp m Q c"
  using assms by (simp add: wp_run state_io_rel_def still_def)

lemma mark_sent_bytes:
  assumes resume: "state_io_rel (still st) resume"
  shows "c_remnant c = [] \<Longrightarrow> wf_pending (pend st c) \<Longrightarrow> sent \<le> length (queued_bytes (pend st c))
    \<Longrightarrow> sent + length (pend st c) \<le> n
    \<Longrightarrow> wp (mark_sent e resume st n sent) (\<lambda>r c'. c_remnant c' = [] \<and> wf_pending (pend st c')
          \<and> sent_to st c' = sent_to st c
          \<and> (r \<noteq> Some NGX_ERROR \<longrightarrow> queued_bytes (pend st c') = drop sent (queued_bytes (pend st c)))) c"
proof (induction n arbitrary: sent c)
  case (Suc n)
  show ?case
  proof (cases "pend st c")
    case Nil
    then show ?thesis using Suc.prems by (simp add: wp_simps)
  next
    case (Cons p ps)
    note pend = this
    define sz where "sz = min (length (p_data p) - p_sent p) sent"
    define p1 where "p1 = p\<lparr>p_sent := p_sent p + sz\<rparr>"
    have p1: "p_sent p1 \<le> length (p_data p1)" "p_left p1 = drop sz (p_left p)"
      using Suc.prems(2) pend by (auto simp: p1_def sz_def p_left_def add.commute)
    have part: "p_sent p1 \<noteq> length (p_data p1) \<Longrightarrow> sz = sent"
      using Suc.prems(2) pend by (auto simp: p1_def sz_def)
    have whole: "p_sent p1 = length (p_data p1) \<Longrightarrow> sz = length (p_left p) \<and> p_left p1 = []"
      using Suc.prems(2) pend by (auto simp: p1_def sz_def length_p_left p_left_def)
    show ?thesis
    proof (cases "sent = 0")
      case True
      then show ?thesis using Suc.prems pend by (simp add: wp_simps)
    next
      case False
      show ?thesis
        unfolding mark_sent.simps
      proof (simp only: wp_simps pend list.case False if_False Let_def flip: sz_def p1_def,
          rule still_wp [OF still_small(1) [of st]])
        fix c1 :: conn
        assume "c_remnant c1 = []" "sent_to st c1 = sent_to st (c\<lparr>c_mem := (c_mem c)(st := c_mem c st\<lparr>st_pending_in := p1 # ps\<rparr>)\<rparr>)"
          "pend st c1 = pend st (c\<lparr>c_mem := (c_mem c)(st := c_mem c st\<lparr>st_pending_in := p1 # ps\<rparr>)\<rparr>)"
        then have c1: "c_remnant c1 = []" "sent_to st c1 = sent_to st c" "pend st c1 = p1 # ps"
          by simp_all
        let ?Q = "\<lambda>r c'. c_remnant c' = [] \<and> wf_pending (pend st c') \<and> sent_to st c' = sent_to st c
          \<and> (r \<noteq> Some NGX_ERROR \<longrightarrow> queued_bytes (pend st c') = drop sent (queued_bytes (p # ps)))"
        have wf: "wf_pending ps" and less: "sz \<le> sent" using Suc.prems(2) pend by (simp_all add: sz_def)
        show "if p_sent p1 \<noteq> length (p_data p1) then wp (arm_write e) (\<lambda>r. ?Q (Some r)) c1
          else wp (upstream_free_pending st p1) (\<lambda>_. wp (upstream_update_input_state resume st)
            (\<lambda>r c'. if r \<noteq> NGX_OK then ?Q (Some NGX_ERROR) c' else wp (mark_sent e resume st n (sent - sz)) ?Q c'))
            (c1\<lparr>c_mem := (c_mem c1)(st := c_mem c1 st\<lparr>st_pending_in := ps,
                st_pending_in_bytes := st_pending_in_bytes (c_mem c1 st) - length (p_data p1)\<rparr>),
               c_pending_input := c_pending_input (c1\<lparr>c_mem := (c_mem c1)(st := c_mem c1 st\<lparr>st_pending_in := ps,
                 st_pending_in_bytes := st_pending_in_bytes (c_mem c1 st) - length (p_data p1)\<rparr>)\<rparr>) - length (p_data p1)\<rparr>)"
        proof (cases "p_sent p1 = length (p_data p1)")
          case True
          have cut: "drop sent (queued_bytes (p # ps)) = drop (sent - sz) (queued_bytes ps)"
            and bounds: "sent - sz \<le> length (queued_bytes ps)" "sent - sz + length ps \<le> n"
            using whole [OF True] less Suc.prems(3,4) pend False by auto
          have "wp (mark_sent e resume st n (sent - sz)) ?Q c2"
            if "c_remnant c2 = []" "sent_to st c2 = sent_to st c" "pend st c2 = ps" for c2
            unfolding cut using Suc.IH [of c2 "sent - sz"] that wf bounds by simp
          then show ?thesis
            using True c1 wf
            by (simp only: if_False not_True_eq_False simp_thms)
              (rule still_wp [OF still_small(4) [of st]], simp, rule still_wp [OF still_update_input [OF resume]],
               simp_all del: queued_simps)
        next
          case partial: False
          then show ?thesis
            using c1 p1 wf part Suc.prems(3) pend
            by (simp, intro still_wp [OF still_small(2) [of st]], simp_all add: p_left_def sz_def)
        qed
      qed (simp add: Suc.prems(1))
    qed
  qed
qed (simp add: wp_simps)

section \<open>Sending the queue\<close>

lemma gather_prefix: "prefix (concat (gather n r ps)) (queued_bytes ps)"
proof (induction n r ps rule: gather.induct)
  case (2 n r p ps)
  then show ?case
    by (auto simp: Let_def take_is_prefix split: option.split)
qed simp

text \<open>What a write leaves: \<open>sent\<close> bytes of the queue are with the target, and are marked so.\<close>

lemma write_and_mark:
  assumes "state_io_rel (still st) resume" "fifo st bs False c" "prefix out (queued_bytes (pend st c))" "sent \<le> length out"
  shows "wp (mark_sent e resume st (sent + length (pend st c)) sent) (\<lambda>r c'. fifo st bs (r = Some NGX_ERROR) c')
    (c\<lparr>c_trace := c_trace c @ [Eff_upstream_write st (take sent out)]\<rparr>)"
proof -
  let ?q = "queued_bytes (pend st c)"
  have out: "take sent out = take sent ?q" "sent \<le> length ?q"
    using assms(3,4) by (auto simp: prefix_def)
  show ?thesis
    by (rule wp_mono [OF mark_sent_bytes [OF assms(1)]])
      (use assms(2) out in \<open>auto simp: fifo_def upstream_bytes_def take_is_prefix\<close>)
qed

lemma fifo_wp:
  "state_io_rel (still st) m \<Longrightarrow> fifo st bs failed c \<Longrightarrow> (\<And>a c'. fifo st bs failed c' \<Longrightarrow> Q a c') \<Longrightarrow> wp m Q c"
  unfolding wp_run using fifo_run by blast

lemma fifo_bind:
  "state_io_rel (still st) m \<Longrightarrow> fifo st bs failed c \<Longrightarrow> (\<And>a c'. fifo st bs failed c' \<Longrightarrow> wp (f a) Q c')
    \<Longrightarrow> wp (State_Monad.bind m f) Q c"
  unfolding wp_bind by (rule fifo_wp)

lemma send_round_fifo:
  assumes "state_io_rel (still st) resume" "fifo st bs False c"
  shows "wp (send_round e resume st max_bytes tot)
    (\<lambda>x c'. fifo st bs (\<exists>n. x = Inl (NGX_ERROR, n)) c') c"
proof -
  let ?out = "concat (gather 64 max_bytes (pend st c))"
  have none: "fifo st bs False (c\<lparr>c_tick := t, c_trace := c_trace c @ [Eff_upstream_write st []]\<rparr>)" for t
    using assms(2) by (simp add: fifo_def upstream_bytes_def sent_to_def)
  have tick: "fifo st bs False (c\<lparr>c_tick := t\<rparr>)" for t
    using assms(2) by (simp add: fifo_def upstream_bytes_def)
  have arm: "wp (arm_write e) (\<lambda>r. fifo st bs (r = NGX_ERROR))
      (c\<lparr>c_tick := t, c_trace := c_trace c @ [Eff_upstream_write st []]\<rparr>)" for t
    by (rule fifo_wp [OF still_small(2) none]) (rule fifo_weaken)
  have mark: "wp (mark_sent e resume st (sent + length (pend st c)) sent)
      (\<lambda>r c'. (r = None \<longrightarrow> fifo st bs False c') \<and> (\<forall>x. r = Some x \<longrightarrow> fifo st bs (x = NGX_ERROR) c'))
      (c\<lparr>c_tick := t, c_trace := c_trace c @ [Eff_upstream_write st (take sent ?out)]\<rparr>)"
    if "sent \<le> length ?out" for sent t
  proof -
    have "wp (mark_sent e resume st (sent + length (pend st c)) sent) (\<lambda>r c'. fifo st bs (r = Some NGX_ERROR) c')
      (c\<lparr>c_tick := t, c_trace := c_trace c @ [Eff_upstream_write st (take sent ?out)]\<rparr>)"
      using write_and_mark [OF assms(1) tick [of t], of ?out sent e] gather_prefix that by simp
    then show ?thesis by (rule wp_mono) auto
  qed
  show ?thesis
    unfolding send_round_def
    using assms(2) mark [of "min k (length ?out)" for k] arm fifo_weaken [OF tick]
    by (auto simp: wp_simps Let_def split: option.split)
qed

lemma send_loop_fifo:
  assumes "state_io_rel (still st) resume"
  shows "fifo st bs False c \<Longrightarrow> wp (send_loop e resume st n max_bytes tot)
    (\<lambda>x c'. fifo st bs (\<exists>n. x = Inl (NGX_ERROR, n)) c') c"
proof (induction n arbitrary: max_bytes tot c)
  case (Suc n)
  have "wp (send_round e resume st max_bytes tot) (\<lambda>x. wp (case x of Inl x \<Rightarrow> ret (Inl x)
      | Inr (go, max', tot') \<Rightarrow> if go then send_loop e resume st n max' tot' else ret (Inr tot'))
      (\<lambda>x c'. fifo st bs (\<exists>n. x = Inl (NGX_ERROR, n)) c')) c"
    by (rule wp_mono [OF send_round_fifo [OF assms Suc.prems]]) (auto simp: wp_simps Suc.IH split: sum.split)
  then show ?case using Suc.prems by (simp add: wp_simps)
qed (simp add: wp_simps)

lemma send_pending_fifo:
  assumes "state_io_rel (still st) resume" "fifo st bs False c"
  shows "wp (upstream_send_pending e resume st max_bytes) (\<lambda>x c'. fifo st bs (fst x = NGX_ERROR) c') c"
proof -
  have still: "wp m (\<lambda>x c'. fifo st bs (fst x = NGX_ERROR) c') c1"
    if "state_io_rel (still st) m" "fifo st bs False c1" for m :: "(rc \<times> nat) M" and c1
    by (rule fifo_wp [OF that]) (rule fifo_weaken)
  have "wp (send_loop e resume st n max_bytes 0) (\<lambda>x. wp (case x of
       Inl x \<Rightarrow> ret x
     | Inr tot \<Rightarrow> do {
         left \<leftarrow> sget st (\<lambda>s. st_pending_in s \<noteq> []);
         if left then do { r \<leftarrow> arm_write e; ret (r, tot) }
         else do {
           s \<leftarrow> sget st (\<lambda>s. s);
           only_if (st_pending_shutdown s \<and> st_upstream s) (do {
             upd_stream st (\<lambda>s. s\<lparr>st_pending_shutdown := False\<rparr>);
             perform (Eff_shutdown_write st) });
           r \<leftarrow> disarm_write e;
           if r \<noteq> NGX_OK then ret (NGX_ERROR, tot)
           else do { r' \<leftarrow> resume; ret (r', tot) } } }) (\<lambda>x c'. fifo st bs (fst x = NGX_ERROR) c')) c" for n
    by (rule wp_mono [OF send_loop_fifo [OF assms]])
      (auto simp: wp_ret split: sum.split intro!: still still_rules still_small assms(1))
  then show ?thesis
    using assms(2) fifo_weaken unfolding upstream_send_pending_def by (simp add: wp_simps)
qed

section \<open>Queueing\<close>

lemma direct_send_fifo:
  "c_remnant c = [] \<Longrightarrow> pend st c = [] \<Longrightarrow> n \<ge> length data
    \<Longrightarrow> wp (direct_send e st n data) (\<lambda>r c'. c_remnant c' = [] \<and> pend st c' = []
          \<and> (case r of None \<Rightarrow> prefix (sent_to st c') (sent_to st c @ data)
             | Some rest \<Rightarrow> sent_to st c' @ rest = sent_to st c @ data)) c"
proof (induction n arbitrary: data c)
  case (Suc n)
  show ?case
  proof (cases "e_send e (c_tick c) (length data)")
    case (IO_bytes k)
    let ?c1 = "c\<lparr>c_tick := Suc (c_tick c), c_trace := c_trace c @ [Eff_upstream_write st (take k data)]\<rparr>"
    let ?Q = "\<lambda>r c'. c_remnant c' = [] \<and> pend st c' = []
      \<and> (case r of None \<Rightarrow> prefix (sent_to st c') (sent_to st c @ data)
         | Some rest \<Rightarrow> sent_to st c' @ rest = sent_to st c @ data)"
    have c1: "sent_to st ?c1 = sent_to st c @ take k data" by (simp add: sent_to_def)
    have "wp (direct_send e st n (drop k data)) ?Q c2"
      if "0 < k" "c_remnant c2 = []" "sent_to st c2 = sent_to st ?c1" "pend st c2 = pend st ?c1" for c2
    proof -
      have "length (drop k data) \<le> n" "pend st c2 = []" using that Suc.prems by simp_all
      note IH = Suc.IH [OF that(2) this(2,1)]
      have eq: "sent_to st c2 @ drop k data = sent_to st c @ data" using that(3) by (simp add: c1)
      show ?thesis using IH unfolding eq .
    qed
    then have "wp (add_bytes_sent st (min k (length data))) (\<lambda>_. wp (direct_send e st n (drop k data)) ?Q) ?c1" if "0 < k"
      using that Suc.prems(1) by (intro still_wp [OF still_small(1) [of st]]) simp_all
    then show ?thesis
      using IO_bytes Suc.prems by (simp add: wp_simps sent_to_def)
  qed (use Suc.prems in \<open>simp_all add: wp_simps\<close>)
qed (simp add: wp_simps)

lemma enqueue_fifo:
  assumes "fifo st bs False c"
  shows "wp (upstream_enqueue e st data) (\<lambda>r c'. fifo st (bs @ data) (r = NGX_ERROR) c') c"
proof -
  have lost: "fifo st (bs @ data) True c1" if "fifo st bs False c1" for c1
    using that by (auto simp: fifo_def)
  have queued: "fifo st (bs @ data) False (c1\<lparr>c_mem := (c_mem c1)(st := (c_mem c1 st)\<lparr>
      st_pending_in := pend st c1 @ [\<lparr>p_data = data, p_sent = 0, p_cap = cap\<rparr>], st_pending_in_bytes := n\<rparr>)\<rparr>)"
    if "fifo st bs False c1" for c1 cap n
    using that by (auto simp: fifo_def upstream_bytes_def p_left_def)
  show ?thesis
    unfolding upstream_enqueue_def
    apply (rule fifo_bind [OF still.ok_sget assms], rule fifo_bind, (intro still_rules still_small; simp), assumption)
    apply (simp only: wp_if wp_ret not_not simp_thms split: if_split, intro conjI impI, erule lost)
    apply (erule fifo_bind [OF still_small(5)])
    apply (simp only: wp_case_option split: option.split, intro conjI impI allI)
    subgoal by (simp add: wp_simps fifo_def)
    apply (simp only: wp_bind [of "upd_stream _ _"] wp_upd_stream, rule fifo_wp [OF _ queued])
    apply (intro still_rules still_small; simp)
    apply assumption
    apply (erule fifo_weaken)
    done
qed

lemma fifo_empty:
  assumes "c_remnant c = []" "pend st c = []"
  shows "prefix (sent_to st c) bs \<Longrightarrow> fifo st bs True c" "sent_to st c = bs \<Longrightarrow> fifo st bs failed c"
  using assms by (simp_all add: fifo_def upstream_bytes_def)

lemma direct_fifo:
  assumes "fifo st bs False c" "pend st c = []"
  shows "wp (upstream_direct e st data) (\<lambda>r c'. fifo st (bs @ data) (r = NGX_ERROR) c') c"
proof -
  have c: "c_remnant c = []" "sent_to st c = bs"
    using assms by (simp_all add: fifo_def upstream_bytes_def)
  have rest: "wp (upstream_enqueue e st rest) (\<lambda>r c'. fifo st (bs @ data) (r = NGX_ERROR) c') c2"
    if "fifo st bs' False c2" "bs' @ rest = bs @ data" for bs' rest c2
    using enqueue_fifo [OF that(1), of e rest] that(2) by simp
  have lost: "fifo st (bs @ data) True c2" if "fifo st bs' False c2" "bs' @ rest = bs @ data" for bs' rest c2
    using that by (metis fifo_def prefix_append prefixI)
  have all: "wp (do { r \<leftarrow> disarm_write e; ret (if r \<noteq> NGX_OK then NGX_ERROR else NGX_OK) })
      (\<lambda>r c'. fifo st (bs @ data) (r = NGX_ERROR) c') c2"
    if "c_remnant c2 = []" "pend st c2 = []" "sent_to st c2 = bs @ data" for c2
    using that by (intro fifo_bind [OF still_small(3) fifo_empty(2) [where failed = False]]) (auto simp: wp_ret intro: fifo_weaken)
  have some: "wp (do { r \<leftarrow> arm_write e; if r \<noteq> NGX_OK then ret NGX_ERROR else upstream_enqueue e st rest })
      (\<lambda>r c'. fifo st (bs @ data) (r = NGX_ERROR) c') c2"
    if "c_remnant c2 = []" "pend st c2 = []" "sent_to st c2 @ rest = bs @ data" for c2 rest
    using that by (intro fifo_bind [OF still_small(2) fifo_empty(2) [where failed = False]]) (auto simp: wp_ret intro: rest lost)
  show ?thesis
    unfolding upstream_direct_def wp_bind [of "direct_send _ _ _ _"]
    by (rule wp_mono [OF direct_send_fifo [OF c(1) assms(2) order_refl]])
      (auto simp: wp_ret c fifo_empty(1) all some split: option.splits)
qed

lemma queue_fifo:
  assumes "state_io_rel (still st) resume" "fifo st bs False c"
  shows "wp (upstream_queue e resume st data) (\<lambda>r c'. fifo st (bs @ data) (r = NGX_ERROR) c') c"
proof -
  have lost: "fifo st (bs @ data) True c1" if "fifo st bs failed c1" for failed c1
    using that by (auto simp: fifo_def)
  have rest: "wp (if empty then upstream_direct e st data else upstream_enqueue e st data)
      (\<lambda>r c'. fifo st (bs @ data) (r = NGX_ERROR) c') c1"
    if "fifo st bs False c1" "empty = (pend st c1 = [])" for empty c1
    using that direct_fifo enqueue_fifo by simp
  have flush: "wp (if ready then do { x \<leftarrow> upstream_send_pending e resume st None; ret (fst x) } else ret NGX_OK)
      (\<lambda>r c'. fifo st bs (r = NGX_ERROR) c') c1" if "fifo st bs False c1" for ready c1
    using send_pending_fifo [OF assms(1) that] that by (simp add: wp_simps)
  have ready: "state_io_rel (still st) (if b then ask (e_flag e) else ret False)" for b
    by (intro still_rules)
  show ?thesis
    unfolding upstream_queue_def
    apply (cases "data = []", use assms(2) in \<open>simp add: wp_ret\<close>, simp only: if_False)
    apply (rule fifo_bind [OF still.ok_sget assms(2)], rule wp_ifI)
    apply (erule enqueue_fifo)
    apply (erule fifo_bind [OF ready], subst wp_bind, rule wp_mono [OF flush], assumption)
    apply (auto simp: wp_ret wp_bind [of "sget _ _"] wp_sget direct_fifo enqueue_fifo intro: lost)
    done
qed

text \<open>
  C6: Client bytes reach the target of a TCP stream in order, none lost and none twice, as long
  as no client bytes wait for the input to be resumed: whatever the sockets answer, after
  \<open>ngx_anytls_upstream_queue\<close> the bytes written to the target and the bytes in its queue are
  those before the call and the new ones. If the call fails, what was written is a prefix of
  them.
\<close>

theorem upstream_fifo:
  assumes "c_remnant c = []" and "wf_pending (st_pending_in (c_mem c st))"
    and "run_state (upstream_queue e (full_resume e) st data) c = (r, c')"
  shows "prefix (sent_to st c') (upstream_bytes st c @ data)
    \<and> (r \<noteq> NGX_ERROR \<longrightarrow> upstream_bytes st c' = upstream_bytes st c @ data)
    \<and> c_remnant c' = [] \<and> wf_pending (st_pending_in (c_mem c' st))"
proof -
  have "fifo st (upstream_bytes st c) False c"
    using assms(1,2) by (simp add: fifo_def upstream_bytes_def)
  from queue_fifo [OF still_resume [of st e] this, of e data] show ?thesis
    using assms(3) by (simp add: wp_run fifo_def)
qed

text \<open>A connected stream whose target takes two bytes and then one at a time.\<close>

definition ex_stream :: conn where
  "ex_stream = (conn_init ex_conf)\<lparr>c_mem := \<lambda>_. stream_zero\<lparr>st_upstream := True, st_state := STREAM_CONNECTED,
     st_pending_in := [\<lparr>p_data = [1, 2, 3], p_sent = 1, p_cap = 3\<rparr>]\<rparr>\<rparr>"

definition ex_slow :: env where
  "ex_slow = (ex_env (\<lambda>_. Recv_again))\<lparr>e_flag := \<lambda>_. True, e_chain := \<lambda>_ _. Some 1\<rparr>"

theorem upstream_fifo_witness:
  "upstream_bytes 0 (snd (run_state (upstream_queue ex_slow (full_resume ex_slow) 0 [4, 5]) ex_stream)) = [2, 3, 4, 5]"
proof -
  let ?run = "run_state (upstream_queue ex_slow (full_resume ex_slow) 0 [4, 5]) ex_stream"
  have "fst ?run = NGX_OK" by code_simp
  moreover have "upstream_bytes 0 ex_stream = [2, 3]" by code_simp
  moreover have "c_remnant ex_stream = []" "wf_pending (st_pending_in (c_mem ex_stream 0))"
    by (simp_all add: ex_stream_def conn_init_def wf_pending_def)
  ultimately show ?thesis
    using upstream_fifo [of ex_stream 0 ex_slow "[4, 5]", OF _ _ prod.collapse [symmetric]] by simp
qed

end
