(* ===== verification/Resend.thy ===== *)
theory Resend
  imports Upstream_Order
begin

text \<open>
  What the hypothesis of \<open>upstream_fifo\<close> excludes: client bytes that wait for the input to be
  resumed, while the queue of their stream is being sent.
\<close>

text \<open>An environment in which every call succeeds, and every write takes all bytes.\<close>

definition all_succeeds :: "env \<Rightarrow> bool" where
  "all_succeeds e \<longleftrightarrow> (\<forall>t. e_alloc e t \<and> e_rc e t = NGX_OK \<and> e_flag e t)
     \<and> (\<forall>t n. e_chain e t n = Some n \<and> e_send e t n = IO_bytes n)"

lemma all_succeedsD:
  assumes "all_succeeds e"
  shows "e_alloc e t" "e_rc e t = NGX_OK" "e_flag e t" "e_chain e t n = Some n" "e_send e t n = IO_bytes n"
  using assms by (simp_all add: all_succeeds_def)

lemma mark_sent_empty: "pend st c = [] \<Longrightarrow> run_state (mark_sent e resume st n k) c = (None, c)"
  by (cases n) simp_all

lemma send_loop_empty: "pend st c = [] \<Longrightarrow> run_state (send_loop e resume st n max_bytes tot) c = (Inr tot, c)"
  by (cases n) simp_all

lemma direct_send_all:
  assumes "all_succeeds e" "d \<noteq> []"
  shows "run_state (direct_send e st (length d) d) c =
    (Some [], snd (run_state (add_bytes_sent st (length d)) (c\<lparr>c_tick := Suc (c_tick c), c_trace := c_trace c @ [Eff_upstream_write st d]\<rparr>)))"
proof -
  obtain x d' where d: "d = x # d'" using assms(2) by (cases d) auto
  then show ?thesis
    using assms by (cases d') (simp_all add: all_succeedsD add_bytes_sent_def)
qed

text \<open>
  The bookkeeping of a send as functions on states: they do not touch what the calls below
  look at.
\<close>

definition count_sent :: "sptr \<Rightarrow> nat \<Rightarrow> conn \<Rightarrow> conn" where
  "count_sent st n c = snd (run_state (add_bytes_sent st n) c)"

definition release :: "sptr \<Rightarrow> pending \<Rightarrow> conn \<Rightarrow> conn" where
  "release st p c = snd (run_state (upstream_free_pending st p) c)"

definition same_but_caches :: "sptr \<Rightarrow> conn \<Rightarrow> conn \<Rightarrow> bool" where
  "same_but_caches st c' c \<longleftrightarrow>
     c_remnant c' = c_remnant c \<and> c_input_paused c' = c_input_paused c \<and> c_closing c' = c_closing c
     \<and> ac_authenticated c' = ac_authenticated c \<and> c_session_core c' = c_session_core c \<and> c_conf c' = c_conf c
     \<and> c_table c' = c_table c \<and> c_pending_input c' = c_pending_input c
     \<and> c_blocked_input_streams c' = c_blocked_input_streams c \<and> id_of c' = id_of c \<and> c_trace c' = c_trace c
     \<and> st_pending_in (c_mem c' st) = st_pending_in (c_mem c st)
     \<and> st_pending_in_bytes (c_mem c' st) = st_pending_in_bytes (c_mem c st)
     \<and> st_input_blocked (c_mem c' st) = st_input_blocked (c_mem c st)
     \<and> st_pending_shutdown (c_mem c' st) = st_pending_shutdown (c_mem c st)
     \<and> st_upstream (c_mem c' st) = st_upstream (c_mem c st) \<and> st_state (c_mem c' st) = st_state (c_mem c st)
     \<and> st_upstream_type (c_mem c' st) = st_upstream_type (c_mem c st)
     \<and> st_in_closed (c_mem c' st) = st_in_closed (c_mem c st)
     \<and> st_closed_by_protocol (c_mem c' st) = st_closed_by_protocol (c_mem c st)
     \<and> st_first_psh_seen (c_mem c' st) = st_first_psh_seen (c_mem c st)"

lemma bookkeeping: "same_but_caches st (count_sent st n c) c" "same_but_caches st (release st p c) c"
  by (auto simp: same_but_caches_def count_sent_def release_def add_bytes_sent_def upstream_free_pending_def
      upstream_free_pending_buf_def fun_eq_iff)

lemmas same_fields = bookkeeping [unfolded same_but_caches_def]

lemma bookkeeping_wp:
  "wp (add_bytes_sent st n) Q c = Q () (count_sent st n c)" "wp (upstream_free_pending st p) Q c = Q () (release st p c)"
  by (simp_all add: wp_run count_sent_def release_def)

lemma wp_mark_empty: "pend st c = [] \<Longrightarrow> wp (mark_sent e resume st n k) Q c = Q None c"
  by (simp add: wp_run mark_sent_empty)

lemma wp_loop_empty: "pend st c = [] \<Longrightarrow> wp (send_loop e resume st n max_bytes tot) Q c = Q (Inr tot) c"
  by (simp add: wp_run send_loop_empty)

lemma resume_quiet:
  assumes "all_succeeds e" "c_remnant c = []" "\<not> c_input_paused c"
  shows "wp (client_input_resume e (Suc n)) (\<lambda>r c'. r = NGX_OK \<and> pend st c' = pend st c
    \<and> sent_to st c' = sent_to st c \<and> c_remnant c' = [] \<and> \<not> c_input_paused c') c"
  using assms by (simp add: input_resume_with_def enable_client_read_def wp_simps all_succeedsD sent_to_def)

lemma calls_succeed:
  assumes "all_succeeds e"
  shows "wp (disarm_write e) Q c = Q NGX_OK (c\<lparr>c_tick := Suc (Suc (c_tick c))\<rparr>)"
    "wp (arm_write e) Q c = Q NGX_OK (c\<lparr>c_tick := Suc (c_tick c)\<rparr>)"
  using assms by (simp_all add: disarm_write_def arm_write_def wp_simps all_succeedsD)

text \<open>The second send: the stream has one entry, which is written and taken off the queue.\<close>

lemma send_one:
  assumes "all_succeeds e" "pend st c = [q]" "p_sent q = 0" "p_data q \<noteq> []" "\<not> st_input_blocked (c_mem c st)"
    "\<not> st_pending_shutdown (c_mem c st)" "st_upstream (c_mem c st)" "st_state (c_mem c st) = STREAM_CONNECTED"
    "c_remnant c = []" "\<not> c_input_paused c"
  shows "wp (upstream_send_pending e (client_input_resume e (Suc n)) st None) (\<lambda>x c'. fst x = NGX_OK \<and> pend st c' = []
    \<and> sent_to st c' = sent_to st c @ p_data q \<and> c_remnant c' = [] \<and> \<not> c_input_paused c') c"
proof -
  have fuel: "send_fuel c st = Suc (length (p_data q))" "length (p_data q) + 1 = Suc (length (p_data q))"
    using assms by (simp_all add: send_fuel_def p_left_def)
  show ?thesis
    unfolding upstream_send_pending_def
    using assms same_fields [of st]
    by (simp add: wp_simps fuel send_round_def all_succeedsD p_left_def upstream_update_input_state_def
        bookkeeping_wp wp_mark_empty wp_loop_empty sub_budget_def calls_succeed Let_def sent_to_def
        del: client_input_resume.simps)
      (rule wp_mono [OF resume_quiet [where st = st]]; simp add: sent_to_def)
qed

lemma queue_one:
  assumes "all_succeeds e" "pend st c = [q]" "p_sent q = 0" "p_data q \<noteq> []" "\<not> st_input_blocked (c_mem c st)"
    "\<not> st_pending_shutdown (c_mem c st)" "st_upstream (c_mem c st)" "st_state (c_mem c st) = STREAM_CONNECTED"
    "c_remnant c = []" "\<not> c_input_paused c" "d \<noteq> []"
  shows "wp (upstream_queue e (client_input_resume e (Suc n)) st d) (\<lambda>r c'. r = NGX_OK \<and> pend st c' = []
    \<and> sent_to st c' = sent_to st c @ p_data q @ d \<and> c_remnant c' = [] \<and> \<not> c_input_paused c') c"
proof -
  let ?c = "c\<lparr>c_tick := Suc (c_tick c)\<rparr>"
  have "wp (upstream_send_pending e (client_input_resume e (Suc n)) st None) (\<lambda>x c'. fst x = NGX_OK \<and> pend st c' = []
    \<and> sent_to st c' = sent_to st c @ p_data q \<and> c_remnant c' = [] \<and> \<not> c_input_paused c') ?c"
    using send_one [of e ?c st q n] assms by (simp del: client_input_resume.simps)
  moreover have "wp (upstream_direct e st d) (\<lambda>r c'. r = NGX_OK \<and> pend st c' = []
    \<and> sent_to st c' = sent_to st c @ p_data q @ d \<and> c_remnant c' = [] \<and> \<not> c_input_paused c') c1"
    if "pend st c1 = []" "c_remnant c1 = []" "\<not> c_input_paused c1" "sent_to st c1 = sent_to st c @ p_data q" for c1
    using that assms(1,11) same_fields [of st]
    by (simp add: upstream_direct_def wp_bind wp_run [of "direct_send _ _ _ _"] direct_send_all
        calls_succeed wp_simps sent_to_def flip: count_sent_def)
  ultimately show ?thesis
    unfolding upstream_queue_def
    using assms
    by (simp add: wp_simps all_succeedsD del: client_input_resume.simps) (rule wp_mono, assumption, simp)
qed

text \<open>A stream in the table, connected over TCP, that takes payload.\<close>

definition open_tcp :: "32 word \<Rightarrow> sptr \<Rightarrow> conn \<Rightarrow> bool" where
  "open_tcp sid st c \<longleftrightarrow>
     stream_ht_find (id_of c) (c_table c) sid = Some st \<and> \<not> st_closed_by_protocol (c_mem c st)
     \<and> \<not> st_in_closed (c_mem c st) \<and> st_first_psh_seen (c_mem c st) \<and> st_upstream_type (c_mem c st) \<noteq> UPSTREAM_UOT
     \<and> st_upstream (c_mem c st) \<and> st_state (c_mem c st) = STREAM_CONNECTED \<and> \<not> st_pending_shutdown (c_mem c st)"

text \<open>A data frame of such a stream, alone among the bytes to be processed.\<close>

lemma process_psh:
  assumes "ac_authenticated c" "open_tcp sid st c" "length d \<le> NGX_ANYTLS_MAX_FRAME_DATA" "d \<noteq> []"
    and "wp (upstream_queue e resume st d) (\<lambda>r c'. r = NGX_OK \<and> \<not> c_input_paused c' \<and> Q NGX_OK (c'\<lparr>c_remnant := []\<rparr>))
      (c\<lparr>c_tick := Suc (c_tick c)\<rparr>)"
  shows "wp (process_client_bytes e resume (write_frame_header NGX_ANYTLS_CMD_PSH sid (word_of_nat (length d)) @ d)) Q c"
proof -
  let ?bs = "write_frame_header NGX_ANYTLS_CMD_PSH sid (word_of_nat (length d)) @ d"
  have parse: "parse_frame ?bs = P_ok (\<lparr>f_cmd = NGX_ANYTLS_CMD_PSH, f_stream_id = sid,
      f_data_len = word_of_nat (length d), f_data = Some d\<rparr>, 7 + length d)"
    using parse_frame_header [of NGX_ANYTLS_CMD_PSH d "word_of_nat (length d)" sid "[]"] assms(3,4)
    by (simp add: unat_of_nat)
  obtain n where n: "7 + length d = Suc n" by (simp flip: add_Suc)
  have len: "length ?bs = Suc n" "?bs \<noteq> []" "drop (Suc n) ?bs = []"
    using assms(4) n by simp_all
  have again: "parse_frame [] = P_again" by (simp add: parse_frame_def)
  have none: "wp (process_frames e resume n []) Q' c' = Q' NGX_OK (c'\<lparr>c_remnant := []\<rparr>)" for n Q' c'
    by (cases n) (simp_all add: again wp_simps)
  show ?thesis
    unfolding process_client_bytes_def len(1)
    using assms len(2)
    by (simp add: open_tcp_def wp_simps len(3) parse n handle_frame_def emit_def session_add_action_def frame_bytes_def
        session_action_def forward_payload_def stream_find_def stream_can_accept_payload_def
        stream_is_first_psh_def mux_handle_client_payload_def mux_is_uot_def none del: drop_append)
      (erule wp_mono, simp)
qed

lemma full_resume_eq: "full_resume e = input_resume_with e (process_client_bytes e (client_input_resume e 1))"
  by (simp add: full_resume_def numeral_2_eq_2)

lemma resume_resends:
  assumes "all_succeeds e" "ac_authenticated c" "\<not> c_closing c" "open_tcp sid st c"
    "c_blocked_input_streams c = 0" "c_pending_input c \<le> cf_max_pending_input (c_conf c) div 2"
    "pend st c = [q]" "p_sent q = 0" "p_data q \<noteq> []" "\<not> st_input_blocked (c_mem c st)"
    "c_remnant c = write_frame_header NGX_ANYTLS_CMD_PSH sid (word_of_nat (length d)) @ d"
    "length d \<le> NGX_ANYTLS_MAX_FRAME_DATA" "d \<noteq> []"
  shows "wp (full_resume e) (\<lambda>r c'. r = NGX_OK \<and> pend st c' = []
    \<and> sent_to st c' = sent_to st c @ p_data q @ d \<and> c_remnant c' = [] \<and> \<not> c_input_paused c') c"
proof -
  let ?c = "c\<lparr>c_input_paused := False, c_remnant := []\<rparr>"
  have queue: "wp (upstream_queue e (client_input_resume e 1) st d) (\<lambda>r c'. r = NGX_OK \<and> pend st c' = []
      \<and> sent_to st c' = sent_to st c @ p_data q @ d \<and> c_remnant c' = [] \<and> \<not> c_input_paused c')
      (?c\<lparr>c_tick := Suc (c_tick c)\<rparr>)"
    using queue_one [of e "?c\<lparr>c_tick := Suc (c_tick c)\<rparr>" st q d 0] assms
    by (simp add: open_tcp_def sent_to_def del: client_input_resume.simps)
  have "wp (process_client_bytes e (client_input_resume e 1) (c_remnant c)) (\<lambda>r c'. r = NGX_OK \<and> pend st c' = []
      \<and> sent_to st c' = sent_to st c @ p_data q @ d \<and> c_remnant c' = [] \<and> \<not> c_input_paused c') ?c"
    unfolding assms(11)
  proof (rule process_psh)
    show "wp (upstream_queue e (client_input_resume e 1) st d) (\<lambda>r c'. r = NGX_OK \<and> \<not> c_input_paused c'
        \<and> NGX_OK = NGX_OK \<and> pend st (c'\<lparr>c_remnant := []\<rparr>) = []
        \<and> sent_to st (c'\<lparr>c_remnant := []\<rparr>) = sent_to st c @ p_data q @ d
        \<and> c_remnant (c'\<lparr>c_remnant := []\<rparr>) = [] \<and> \<not> c_input_paused (c'\<lparr>c_remnant := []\<rparr>))
      (?c\<lparr>c_tick := Suc (c_tick ?c)\<rparr>)"
      using wp_mono [OF queue] by (simp add: sent_to_def del: client_input_resume.simps)
  qed (use assms in \<open>simp_all add: open_tcp_def\<close>)
  moreover have "wp (full_resume e) Q c = wp (process_client_bytes e (client_input_resume e 1) (c_remnant c))
      (\<lambda>r. wp (if r \<noteq> NGX_OK then ret r else do {
         paused \<leftarrow> gets c_input_paused;
         if paused then ret NGX_OK else enable_client_read e }) Q) ?c" for Q
    unfolding full_resume_eq input_resume_with_def
    using assms(3,5,6,11) assms(13)
    by (simp add: wp_bind wp_gets wp_modify input_blocked_def del: client_input_resume.simps)
  ultimately show ?thesis
    using assms(1)
    by (simp only:) (erule wp_mono, simp add: enable_client_read_def wp_simps all_succeedsD sent_to_def)
qed

text \<open>
  C8: The hypothesis of \<open>upstream_fifo\<close> cannot be dropped. Two entries wait in the queue of a
  stream, client input is blocked by it, and the next data frame of the stream waits in the
  remnant. One write takes both entries. After the first is marked as sent the queue is short
  enough to resume the client input, in the middle of the marking: the waiting frame is
  processed, finds the second entry in the queue, not marked yet, and sends it again. The
  target receives the second entry twice.
\<close>

theorem pending_sent_twice:
  assumes "all_succeeds e" and "ac_authenticated c" and "\<not> c_closing c" and "open_tcp sid st c"
    and "st_input_blocked (c_mem c st)" and "c_blocked_input_streams c = 1"
    and "st_pending_in (c_mem c st) = [p, q]" and "p_sent p = 0" "p_data p \<noteq> []" "p_sent q = 0" "p_data q \<noteq> []"
    and "st_pending_in_bytes (c_mem c st) = length (p_data p) + length (p_data q)"
    and "c_pending_input c = length (p_data p) + length (p_data q)"
    and "length (p_data q) \<le> cf_max_pending_input (c_conf c) div 2"
    and "c_remnant c = write_frame_header NGX_ANYTLS_CMD_PSH sid (word_of_nat (length d)) @ d"
    and "length d \<le> NGX_ANYTLS_MAX_FRAME_DATA" "d \<noteq> []"
    and "run_state (upstream_send_pending e (full_resume e) st None) c = (r, c')"
  shows "sent_to st c' = sent_to st c @ p_data p @ p_data q @ p_data q @ d"
proof -
  obtain n where fuel: "send_fuel c st = Suc n" by (simp add: send_fuel_def)
  have ids: "(\<lambda>p. st_id (if p = st then s else m p)) = (\<lambda>p. st_id (m p))" if "st_id s = st_id (m st)" for s m
    using that by auto
  have "wp (upstream_send_pending e (full_resume e) st None)
    (\<lambda>_ c'. sent_to st c' = sent_to st c @ p_data p @ p_data q @ p_data q @ d) c"
    unfolding upstream_send_pending_def
    using assms(1-17) same_fields [of st]
    by (simp add: wp_simps fuel send_round_def all_succeedsD p_left_def upstream_update_input_state_def open_tcp_def
        bookkeeping_wp sub_budget_def calls_succeed Let_def)
      (rule wp_mono [OF resume_resends [where q = q and d = d and sid = sid and st = st]];
       simp add: open_tcp_def ids sent_to_def wp_simps calls_succeed wp_loop_empty;
       intro conjI impI; rule still_wp [OF still_resume [of st]]; simp add: sent_to_def)
  then show ?thesis using assms(18) by (simp add: wp_run)
qed

text \<open>
  A connection with \<open>anytls_max_pending_input 4\<close> whose client has sent the payloads
  \<open>aaaa\<close>, \<open>b\<close> and \<open>c\<close> on stream 1; the first two are queued.
\<close>

definition ex_table :: "sptr table" where
  "ex_table = \<lparr>ht_slots = (replicate 64 Slot_null)[1 := Slot_live 0], ht_mask = 63\<rparr>"

definition ex_blocked :: conn where
  "ex_blocked = (conn_init (ex_conf\<lparr>cf_max_pending_input := 4\<rparr>))
     \<lparr>ac_authenticated := True, c_table := ex_table, c_blocked_input_streams := 1, c_pending_input := 5,
      c_mem := \<lambda>_. stream_zero\<lparr>st_id := 1, st_upstream := True, st_state := STREAM_CONNECTED,
        st_upstream_type := UPSTREAM_TCP, st_first_psh_seen := True, st_input_blocked := True, st_pending_in_bytes := 5,
        st_pending_in := [\<lparr>p_data = [97, 97, 97, 97], p_sent = 0, p_cap = 4\<rparr>, \<lparr>p_data = [98], p_sent = 0, p_cap = 1\<rparr>]\<rparr>,
      c_remnant := [2, 0, 0, 0, 1, 0, 1, 99]\<rparr>"

definition ex_fast :: env where
  "ex_fast = (ex_env (\<lambda>_. Recv_again))\<lparr>e_flag := \<lambda>_. True\<rparr>"

theorem pending_sent_twice_witness:
  "sent_to 0 (snd (run_state (upstream_send_pending ex_fast (full_resume ex_fast) 0 None) ex_blocked))
    = [97, 97, 97, 97, 98, 98, 99]"
proof -
  have "stream_ht_find (\<lambda>_. 1) ex_table 1 = Some 0" by code_simp
  then have "open_tcp 1 0 ex_blocked"
    by (simp add: open_tcp_def ex_blocked_def stream_zero_def)
  moreover have "all_succeeds ex_fast" by (simp add: all_succeeds_def ex_fast_def ex_env_def)
  ultimately show ?thesis
    using pending_sent_twice [of ex_fast ex_blocked 1 0 _ _ "[99]", OF _ _ _ _ _ _ _ _ _ _ _ _ _ _ _ _ _ prod.collapse [symmetric]]
    by (simp add: ex_blocked_def conn_init_def ex_conf_def write_frame_header_def sent_to_def)
qed

end
