(* ===== verification/Fallback_Order.thy ===== *)
theory Fallback_Order
  imports Client_Input
begin

text \<open>
  The order of the bytes a fallback server receives: those that were read before the connection
  fell back, then those that are read from the client.
\<close>

fun fallback_write_of :: "effect \<Rightarrow> buffer" where
  "fallback_write_of (Eff_fallback_write bs) = bs"
| "fallback_write_of _ = []"

definition relayed :: "conn \<Rightarrow> buffer" where
  "relayed c = concat (map fallback_write_of (c_trace c))"

definition left :: "fbuf option \<Rightarrow> buffer" where
  "left b = (case b of None \<Rightarrow> [] | Some fb \<Rightarrow> fb_data fb)"

definition to_fallback :: "conn \<Rightarrow> buffer" where
  "to_fallback c = relayed c @ left (c_fallback_replay c) @ left (c_fallback_client_buf c)"

section \<open>Flushing a buffer\<close>

text \<open>What a flush leaves alone.\<close>

definition same_slots :: "conn \<Rightarrow> conn \<Rightarrow> bool" where
  "same_slots c c' \<longleftrightarrow> c_fallback_replay c' = c_fallback_replay c \<and> c_fallback_client_buf c' = c_fallback_client_buf c
     \<and> c_fallback_upstream_buf c' = c_fallback_upstream_buf c \<and> c_received c' = c_received c \<and> c_closing c' = c_closing c"

definition flushed :: "bool \<Rightarrow> conn \<Rightarrow> buffer \<Rightarrow> conn \<Rightarrow> buffer \<Rightarrow> bool" where
  "flushed upstream c bs c' bs' \<longleftrightarrow> same_slots c c'
     \<and> (if upstream then relayed c' @ bs' = relayed c @ bs else relayed c' = relayed c)"

lemma flushed_trans: "flushed u c bs c1 bs1 \<Longrightarrow> flushed u c1 bs1 c2 bs2 \<Longrightarrow> flushed u c bs c2 bs2"
  by (auto simp: flushed_def same_slots_def)

lemma flushed_quiet:
  "c_fallback_replay c' = c_fallback_replay c \<Longrightarrow> c_fallback_client_buf c' = c_fallback_client_buf c
    \<Longrightarrow> c_fallback_upstream_buf c' = c_fallback_upstream_buf c \<Longrightarrow> c_received c' = c_received c
    \<Longrightarrow> c_closing c' = c_closing c \<Longrightarrow> relayed c' = relayed c \<Longrightarrow> flushed u c bs c' bs"
  by (simp add: flushed_def same_slots_def)

lemma flush_loop_order:
  "length (fb_data b) < n
    \<Longrightarrow> wp (flush_buf_loop e upstream budget n sent b) (\<lambda>(r, b') c'. flushed upstream c (fb_data b) c' (fb_data b')
          \<and> (r \<noteq> NGX_ERROR \<longrightarrow> r \<noteq> NGX_AGAIN \<longrightarrow> fb_data b' = [])) c"
proof (induction n arbitrary: sent b c)
  case (Suc n)
  let ?sz = "min (length (fb_data b)) (budget - sent)"
  show ?case
  proof (cases "e_send e (c_tick c) ?sz")
    case (IO_bytes k)
    let ?k = "min k ?sz"
    define bs where "bs = take ?k (fb_data b)"
    define b1 where "b1 = \<lparr>fb_pos = fb_pos b + length bs, fb_data = drop ?k (fb_data b)\<rparr>"
    let ?Q = "\<lambda>(r, b') c'. flushed upstream c (fb_data b) c' (fb_data b') \<and> (r \<noteq> NGX_ERROR \<longrightarrow> r \<noteq> NGX_AGAIN \<longrightarrow> fb_data b' = [])"
    have rest: "wp (flush_buf_loop e upstream budget n (sent + length bs) b1) ?Q c1"
      if "?k \<noteq> 0" "flushed upstream c (fb_data b) c1 (fb_data b1)" for c1
    proof (rule wp_mono [OF Suc.IH])
      have "0 < ?k" "?k \<le> length (fb_data b)" using that(1) by simp_all
      then show "length (fb_data b1) < n"
        using Suc.prems unfolding b1_def by (simp only: fbuf.simps length_drop) arith
    qed (use flushed_trans [OF that(2)] in auto)
    have step: "flushed upstream c (fb_data b) c1 (fb_data b1)"
      if "relayed c1 = relayed c @ (if upstream then bs else [])" "same_slots c c1" for c1
      using that by (simp add: flushed_def b1_def bs_def)
    show ?thesis
    proof (cases upstream)
      case True
      show ?thesis
        using IO_bytes
        by (simp add: True wp_simps Let_def arm_write_def fallback_count_def post_write_next_def flip: bs_def b1_def)
          (intro conjI impI rest [simplified True] step [simplified True] flushed_quiet;
           simp add: relayed_def same_slots_def)
    next
      case False
      show ?thesis
        using IO_bytes
        by (simp add: False wp_simps Let_def arm_write_def fallback_count_def post_write_next_def flip: bs_def b1_def)
          (intro conjI impI rest [simplified False] step [simplified False] flushed_quiet;
           simp add: relayed_def same_slots_def)
    qed
  qed (use Suc.prems in \<open>auto simp: wp_simps Let_def arm_write_def relayed_def intro!: flushed_quiet\<close>)
qed simp

lemma flush_buf_order:
  "wp (fallback_flush_buf e upstream budget b) (\<lambda>x c'. flushed upstream c (left b) c' (left (snd x))
     \<and> (fst x \<noteq> NGX_ERROR \<longrightarrow> fst x \<noteq> NGX_AGAIN \<longrightarrow> left (snd x) = [])) c"
proof (cases b)
  case (Some fb)
  have "wp (flush_buf_loop e upstream budget (Suc (length (fb_data fb))) 0 fb) (\<lambda>x. wp (ret (fst x, Some (snd x)))
      (\<lambda>x c'. flushed upstream c (left b) c' (left (snd x)) \<and> (fst x \<noteq> NGX_ERROR \<longrightarrow> fst x \<noteq> NGX_AGAIN \<longrightarrow> left (snd x) = []))) c"
    by (rule wp_mono [OF flush_loop_order]) (auto simp: wp_ret left_def Some)
  then show ?thesis
    by (simp add: Some fallback_flush_buf_def wp_bind case_prod_beta del: flush_buf_loop.simps)
qed (simp add: fallback_flush_buf_def wp_ret left_def flushed_quiet)

section \<open>Events of a connection that fell back\<close>

lemma finalize_closes: "wp (finalize_rc e (full_resume e) code) (\<lambda>_ c'. c_closing c') c"
proof (cases "c_closing c")
  case False
  have "c_closing (snd (run_state (close_connection e (full_resume e)) (c\<lparr>c_closing := True\<rparr>)))"
    using once_view.ok_run [OF once_view.ok_close_connection [OF once_full_resume], of "c\<lparr>c_closing := True\<rparr>" e]
    by (simp add: once_order_def)
  then show ?thesis
    using False by (simp add: finalize_rc_def wp_simps wp_run [of "close_connection _ _"])
qed (simp add: finalize_rc_def wp_simps)

text \<open>
  \<open>owes xs c c'\<close>: the bytes \<open>xs\<close> came in, and are behind those owed before.
  \<open>relays\<close> also allows the end of the session.
\<close>

definition owes :: "buffer \<Rightarrow> conn \<Rightarrow> conn \<Rightarrow> bool" where
  "owes xs c c' \<longleftrightarrow> to_fallback c' = to_fallback c @ xs \<and> c_received c' = c_received c + length xs"

definition relays :: "buffer \<Rightarrow> conn \<Rightarrow> conn \<Rightarrow> bool" where
  "relays xs c c' \<longleftrightarrow> c_closing c' \<or> owes xs c c'"

lemma owes_trans: "owes xs c c1 \<Longrightarrow> owes ys c1 c2 \<Longrightarrow> owes (xs @ ys) c c2"
  by (simp add: owes_def)

lemma finalize_relays:
  "wp (finalize e (full_resume e)) (\<lambda>_. relays xs c) c1" "wp (finalize_rc e (full_resume e) code) (\<lambda>_. relays xs c) c1"
  unfolding finalize_def by (rule wp_mono [OF finalize_closes], simp add: relays_def)+

lemma arm_or_finalize_relays: "owes xs c c1 \<Longrightarrow> wp (arm_or_finalize e (full_resume e)) (\<lambda>_. relays xs c) c1"
  unfolding arm_or_finalize_def
  by (simp add: wp_simps finalize_relays) (simp add: relays_def owes_def to_fallback_def relayed_def)

lemma flush_slot_owes:
  assumes "left (c_fallback_replay c) = [] \<or> \<not> upstream"
  shows "wp (flush_slot e upstream) (\<lambda>r c'. owes [] c c' \<and> c_fallback_replay c' = c_fallback_replay c
     \<and> (r \<noteq> NGX_ERROR \<longrightarrow> r \<noteq> NGX_AGAIN \<longrightarrow> left (get_slot upstream c') = [])) c"
proof -
  have "wp (fallback_flush_buf e upstream budget (get_slot upstream c)) (\<lambda>x. wp (set_slot upstream (snd x)) (\<lambda>_. wp (ret (fst x))
      (\<lambda>r c'. owes [] c c' \<and> c_fallback_replay c' = c_fallback_replay c
       \<and> (r \<noteq> NGX_ERROR \<longrightarrow> r \<noteq> NGX_AGAIN \<longrightarrow> left (get_slot upstream c') = [])))) c" for budget
    by (rule wp_mono [OF flush_buf_order])
      (use assms in \<open>auto simp: wp_simps set_slot_def get_slot_def owes_def to_fallback_def flushed_def same_slots_def
        relayed_def split: if_splits\<close>)
  then show ?thesis
    by (simp add: flush_slot_def wp_bind wp_gets case_prod_beta)
qed

text \<open>The flush of the slot at the end of an event.\<close>

lemma flush_slot_relays:
  assumes "owes xs c c1" "left (c_fallback_replay c1) = [] \<or> \<not> upstream"
    and "\<And>r c2. r \<noteq> NGX_ERROR \<Longrightarrow> owes xs c c2 \<Longrightarrow> c_fallback_replay c2 = c_fallback_replay c1
      \<Longrightarrow> (r \<noteq> NGX_AGAIN \<Longrightarrow> left (get_slot upstream c2) = []) \<Longrightarrow> wp (f r) Q c2"
    and "\<And>c2. wp (f NGX_ERROR) Q c2"
  shows "wp (State_Monad.bind (flush_slot e upstream) f) Q c1"
  unfolding wp_bind
proof (rule wp_mono [OF flush_slot_owes [OF assms(2)]])
  fix r c2
  assume "owes [] c1 c2 \<and> c_fallback_replay c2 = c_fallback_replay c1 \<and> (r \<noteq> NGX_ERROR \<longrightarrow> r \<noteq> NGX_AGAIN \<longrightarrow> left (get_slot upstream c2) = [])"
  then show "wp (f r) Q c2"
    using assms(3) [of r c2] assms(4) owes_trans [OF assms(1), of "[]" c2] by (cases "r = NGX_ERROR") auto
qed

lemma flush_upstream_relays:
  assumes "owes [] c c1"
  shows "wp (fallback_flush_upstream e (full_resume e)) (\<lambda>_. relays [] c) c1"
proof -
  let ?f = "\<lambda>r. if r = NGX_ERROR then finalize e (full_resume e)
       else if r = NGX_AGAIN then ret ()
       else do {
         client \<leftarrow> ask (e_rc e);
         fb \<leftarrow> (if client = NGX_OK then ask (e_rc e) else ret NGX_ERROR);
         only_if (fb \<noteq> NGX_OK) (finalize e (full_resume e)) }"
  have rest: "wp (State_Monad.bind (flush_slot e True) ?f) (\<lambda>_. relays [] c) c2"
    if "owes [] c c2" "c_fallback_replay c2 = None" for c2
    using that
    by (intro flush_slot_relays [where xs = "[]"])
      (auto simp: left_def wp_simps finalize_relays relays_def owes_def to_fallback_def relayed_def)
  have replayed: "wp (fallback_flush_buf e True budget (c_fallback_replay c2))
      (\<lambda>x c3. owes [] c (c3\<lparr>c_fallback_replay := snd x\<rparr>) \<and> (fst x \<noteq> NGX_ERROR \<longrightarrow> fst x \<noteq> NGX_AGAIN \<longrightarrow> left (snd x) = [])) c2"
    if "owes [] c c2" for budget c2
  proof (rule wp_mono [OF flush_buf_order])
    fix x c3
    assume *: "flushed True c2 (left (c_fallback_replay c2)) c3 (left (snd x)) \<and> (fst x \<noteq> NGX_ERROR \<longrightarrow> fst x \<noteq> NGX_AGAIN \<longrightarrow> left (snd x) = [])"
    then have "(relayed c3 @ left (snd x)) @ left (c_fallback_client_buf c3)
        = (relayed c2 @ left (c_fallback_replay c2)) @ left (c_fallback_client_buf c2)"
      by (auto simp: flushed_def same_slots_def)
    then have "to_fallback (c3\<lparr>c_fallback_replay := snd x\<rparr>) = to_fallback c2"
      by (simp add: to_fallback_def relayed_def)
    with * that show "owes [] c (c3\<lparr>c_fallback_replay := snd x\<rparr>) \<and> (fst x \<noteq> NGX_ERROR \<longrightarrow> fst x \<noteq> NGX_AGAIN \<longrightarrow> left (snd x) = [])"
      by (simp add: owes_def flushed_def same_slots_def)
  qed
  have connect: "wp (fallback_on_connect e) (\<lambda>_ c2. owes [] c c2) c1"
    using assms by (simp add: fallback_on_connect_def wp_simps owes_def to_fallback_def relayed_def)
  have emptied: "owes [] c (c3\<lparr>c_fallback_replay := None\<rparr>)"
    if "owes [] c (c3\<lparr>c_fallback_replay := b\<rparr>)" "left b = []" for b c3
    using that by (simp add: owes_def to_fallback_def relayed_def left_def)
  show ?thesis
    unfolding fallback_flush_upstream_def wp_bind [of "fallback_on_connect e"]
  proof (rule wp_mono [OF connect], unfold wp_bind [of "gets _"] wp_gets wp_bind [of "fallback_flush_buf _ _ _ _"],
      rule wp_mono [OF replayed], assumption)
    fix x c3
    assume *: "owes [] c (c3\<lparr>c_fallback_replay := snd x\<rparr>) \<and> (fst x \<noteq> NGX_ERROR \<longrightarrow> fst x \<noteq> NGX_AGAIN \<longrightarrow> left (snd x) = [])"
    then show "wp (case x of (r, replay') \<Rightarrow> do {
        modify (\<lambda>c. c\<lparr>c_fallback_replay := replay'\<rparr>);
        if r = NGX_ERROR then finalize e (full_resume e)
        else if r = NGX_AGAIN then ret ()
        else do {
          modify (\<lambda>c. c\<lparr>c_fallback_replay := None\<rparr>);
          r \<leftarrow> flush_slot e True;
          if r = NGX_ERROR then finalize e (full_resume e)
          else if r = NGX_AGAIN then ret ()
          else do {
            client \<leftarrow> ask (e_rc e);
            fb \<leftarrow> (if client = NGX_OK then ask (e_rc e) else ret NGX_ERROR);
            only_if (fb \<noteq> NGX_OK) (finalize e (full_resume e)) } } }) (\<lambda>_. relays [] c) c3"
      using rest [of "c3\<lparr>c_fallback_replay := None\<rparr>"] emptied [of "snd x" c3]
      by (cases x) (auto simp: wp_modify wp_bind [of "modify _"] wp_ret finalize_relays relays_def)
  qed
qed

text \<open>The end of the connect does not touch what is owed.\<close>

lemma connected_relays:
  "wp (fallback_connected e (full_resume e) timedout) (\<lambda>go c'. if go then owes [] c c' else relays [] c c') c"
  unfolding fallback_connected_def fallback_bad_gateway_def arm_or_finalize_def fallback_on_connect_def
  by (simp add: wp_simps finalize_relays) (simp add: relays_def owes_def to_fallback_def relayed_def)

lemma fallback_write_relays:
  "wp (fallback_write e (full_resume e) is_client timedout) (\<lambda>_. relays [] c) c"
proof -
  let ?client = "do {
       r \<leftarrow> flush_slot e False;
       if r = NGX_ERROR then finalize e (full_resume e)
       else if r = NGX_AGAIN then ret ()
       else arm_or_finalize e (full_resume e) }"
  have client: "wp ?client (\<lambda>_. relays [] c) c1" if "owes [] c c1" for c1
    using that
    by (intro flush_slot_relays [where xs = "[]"])
      (auto simp: wp_ret finalize_relays arm_or_finalize_relays relays_def)
  have tick: "owes [] c (c1\<lparr>c_tick := t\<rparr>)" if "owes [] c c1" for c1 t
    using that by (simp add: owes_def to_fallback_def relayed_def)
  let ?go = "\<lambda>go. only_if go (do {
       ready \<leftarrow> ask (e_flag e);
       if \<not> ready then arm_or_finalize e (full_resume e)
       else if \<not> is_client then fallback_flush_upstream e (full_resume e)
       else ?client })"
  have "wp (?go go) (\<lambda>_. relays [] c) c1" if "if go then owes [] c c1 else relays [] c c1" for go c1
  proof (cases go)
    case True
    with that have "owes [] c c1" by simp
    with True show ?thesis
      by (simp add: wp_only_if wp_bind [of "ask _"] wp_ask wp_if tick arm_or_finalize_relays flush_upstream_relays client)
  next
    case False
    with that show ?thesis by (simp add: wp_only_if)
  qed
  moreover have "wp (if \<not> is_client \<and> \<not> connected then fallback_connected e (full_resume e) timedout else ret True)
      (\<lambda>go c'. if go then owes [] c c' else relays [] c c') c" for connected
    by (simp add: connected_relays wp_ret owes_def)
  ultimately show ?thesis
    unfolding fallback_write_def wp_bind [of "gets _"] wp_gets wp_bind [of "if _ then _ else _"]
    by (blast intro: wp_mono)
qed

section \<open>Read events\<close>

text \<open>The bytes of the reads \<open>ts\<close>, each a time and the room offered.\<close>

definition reads :: "env \<Rightarrow> (nat \<times> nat) list \<Rightarrow> buffer" where
  "reads e ts = concat (map (\<lambda>(t, room). case recv_upto room (e_recv e t room) of
      Recv_bytes bs \<Rightarrow> bs | _ \<Rightarrow> []) ts)"

definition incoming :: "env \<Rightarrow> bool \<Rightarrow> (nat \<times> nat) list \<Rightarrow> buffer" where
  "incoming e u ts = (if u then reads e ts else [])"

definition relays_reads :: "env \<Rightarrow> bool \<Rightarrow> conn \<Rightarrow> conn \<Rightarrow> bool" where
  "relays_reads e upstream c c' \<longleftrightarrow> (\<exists>ts. relays (incoming e upstream ts) c c')"

lemma finalize_reads: "wp (finalize e (full_resume e)) (\<lambda>_. relays_reads e u c) c1"
  by (rule wp_mono [OF finalize_relays(1)]) (simp add: relays_reads_def, rule exI)

lemma relays_reads: "relays (incoming e u ts) c c' \<Longrightarrow> relays_reads e u c c'"
  unfolding relays_reads_def by (rule exI)

lemma arm_or_finalize_reads:
  "owes (incoming e u ts) c c1 \<Longrightarrow> wp (arm_or_finalize e (full_resume e)) (\<lambda>_. relays_reads e u c) c1"
  by (rule wp_mono [OF arm_or_finalize_relays]) (auto dest: relays_reads)

lemma incoming_more:
  "recv_upto room (e_recv e t room) = Recv_bytes bs
    \<Longrightarrow> incoming e u (ts @ [(t, room)]) = incoming e u ts @ (if u then bs else [])"
  by (simp add: incoming_def reads_def)

lemma owes_more:
  "owes xs c c1 \<Longrightarrow> c_trace c2 = c_trace c1 \<Longrightarrow> c_fallback_replay c2 = c_fallback_replay c1
    \<Longrightarrow> left (c_fallback_client_buf c2) = left (c_fallback_client_buf c1) @ ys
    \<Longrightarrow> c_received c2 = c_received c1 + length ys \<Longrightarrow> owes (xs @ ys) c c2"
  by (simp add: owes_def to_fallback_def relayed_def)

lemma read_loop_reads:
  "owes (incoming e u ts) c c1 \<Longrightarrow> (u \<Longrightarrow> c_fallback_replay c1 = None)
    \<Longrightarrow> wp (fallback_read_loop e (full_resume e) u n read_bytes) (\<lambda>_. relays_reads e u c) c1"
proof (induction n arbitrary: ts c1 read_bytes)
  case 0
  then show ?case by (auto simp: wp_ret relays_def intro: relays_reads)
next
  case (Suc n)
  note owed = Suc.prems(1)
  let ?b = "case get_slot u c1 of None \<Rightarrow> \<lparr>fb_pos = 0, fb_data = []\<rparr> | Some fb \<Rightarrow> fb"
  let ?room = "cf_buffer_size (c_conf c1) - (fb_pos ?b + length (fb_data ?b))"
  have kept: "relays_reads e u c c2" if "owes (incoming e u ts') c c2" for c2 ts'
    using that by (intro relays_reads) (auto simp: relays_def)
  have flushed: "wp (State_Monad.bind (flush_slot e u) (\<lambda>r.
       if r = NGX_ERROR then do { finalize e (full_resume e); ret None }
       else if r = NGX_AGAIN then ret None
       else if k \<ge> NGX_ANYTLS_FALLBACK_READ_BUDGET_BYTES then ret (Some True)
       else fallback_read_loop e (full_resume e) u n k)) (\<lambda>_. relays_reads e u c) c2"
    if "owes (incoming e u ts') c c2" "u \<Longrightarrow> c_fallback_replay c2 = None" for c2 ts' k
    using that
    by (intro flush_slot_relays [OF that(1)])
      (auto simp: left_def wp_ret wp_bind [of "finalize _ _"] finalize_reads intro: kept Suc.IH)
  have got: "owes (incoming e u (ts @ [(t, ?room)])) c c2"
    if "recv_upto ?room (e_recv e t ?room) = Recv_bytes bs" "c_trace c2 = c_trace c1"
      "c_fallback_replay c2 = c_fallback_replay c1"
      "left (c_fallback_client_buf c2) = left (c_fallback_client_buf c1) @ (if u then bs else [])"
      "c_received c2 = c_received c1 + (if u then length bs else 0)" for c2 t bs
    unfolding incoming_more [OF that(1)] using that(2-) by (intro owes_more [OF owed]) auto
  let ?r = "recv_upto ?room (e_recv e (c_tick c1) ?room)"
  have ticked: "owes (incoming e u ts) c (c1\<lparr>c_tick := t\<rparr>)" for t
    using owed by (simp add: owes_def to_fallback_def relayed_def)
  have filled: "left (Some (?b\<lparr>fb_data := fb_data ?b @ bs\<rparr>)) = left (get_slot u c1) @ bs" for bs
    by (simp add: left_def split: option.splits)
  show ?case
    unfolding fallback_read_loop.simps wp_bind [of "gets _"] wp_gets
  proof (rule wp_ifI)
    show "wp (do { arm_or_finalize e (full_resume e); ret None }) (\<lambda>_. relays_reads e u c) c1"
      by (simp add: wp_bind [of "arm_or_finalize _ _"] wp_ret arm_or_finalize_reads [OF owed])
  next
    show "wp (do {
        r \<leftarrow> transport_read e ?room;
        case r of
          Recv_again \<Rightarrow> ret (Some False)
        | Recv_eof \<Rightarrow> do { finalize e (full_resume e); ret None }
        | Recv_error \<Rightarrow> do { finalize e (full_resume e); ret None }
        | Recv_bytes bs \<Rightarrow> do {
            set_slot u (Some (?b\<lparr>fb_data := fb_data ?b @ bs\<rparr>));
            (if u then modify (\<lambda>c. c\<lparr>c_received := c_received c + length bs\<rparr>) else fallback_on_first_byte e);
            r \<leftarrow> flush_slot e u;
            if r = NGX_ERROR then do { finalize e (full_resume e); ret None }
            else if r = NGX_AGAIN then ret None
            else if read_bytes + length bs \<ge> NGX_ANYTLS_FALLBACK_READ_BUDGET_BYTES then ret (Some True)
            else fallback_read_loop e (full_resume e) u n (read_bytes + length bs) } }) (\<lambda>_. relays_reads e u c) c1"
    proof (cases ?r)
      case (Recv_bytes bs)
      have stored: "wp (set_slot u (Some (?b\<lparr>fb_data := fb_data ?b @ bs\<rparr>))) (\<lambda>_. wp
          (if u then modify (\<lambda>c. c\<lparr>c_received := c_received c + length bs\<rparr>) else fallback_on_first_byte e)
          (\<lambda>_ c2. c_trace c2 = c_trace c1 \<and> c_fallback_replay c2 = c_fallback_replay c1
             \<and> left (c_fallback_client_buf c2) = left (c_fallback_client_buf c1) @ (if u then bs else [])
             \<and> c_received c2 = c_received c1 + (if u then length bs else 0)))
          (c1\<lparr>c_tick := Suc (c_tick c1)\<rparr>)"
        using filled [of bs] by (cases u) (simp_all add: set_slot_def get_slot_def fallback_on_first_byte_def wp_simps)
      show ?thesis
        unfolding transport_read_def wp_bind [of "ask _"] wp_ask Recv_bytes recv.case
          wp_bind [of "set_slot _ _"] wp_bind [of "if _ then _ else _"]
        by (rule wp_mono [OF stored], rule wp_mono, assumption)
          (use Suc.prems(2) in \<open>blast intro: flushed [OF got [OF Recv_bytes]] dest: trans\<close>)
    qed (use ticked in \<open>auto simp: transport_read_def wp_bind [of "ask _"] wp_ask wp_ret
        wp_bind [of "finalize _ _"] finalize_reads intro: kept\<close>)
  qed
qed

lemma fallback_read_reads: "wp (fallback_read e (full_resume e) u) (\<lambda>_. relays_reads e u c) c"
proof -
  have none: "owes (incoming e u []) c c1" if "owes [] c c1" for c1
    using that by (simp add: incoming_def reads_def)
  have start: "owes (incoming e u []) c c"
    by (rule none) (simp add: owes_def)
  have same: "relays_reads e u c c1" if "owes [] c c1" for c1
    using none [OF that] by (intro relays_reads [of e u "[]"]) (simp add: relays_def)
  have got: "wp (fallback_get_buf e u) (\<lambda>_ c1. owes [] c c1 \<and> c_fallback_replay c1 = c_fallback_replay c) c"
    by (simp add: fallback_get_buf_def wp_simps set_slot_def Let_def owes_def to_fallback_def relayed_def
        get_slot_def left_def split: option.splits)
  have rearm: "wp (State_Monad.bind (ask (e_rc e)) (\<lambda>armed. if armed \<noteq> NGX_OK then finalize e (full_resume e)
        else only_if exhausted (perform x))) (\<lambda>_. relays_reads e u c) c1"
    if "relays_reads e u c c1" "fallback_write_of x = []" for exhausted c1 x
    using that by (auto simp: wp_simps finalize_reads relays_reads_def relays_def owes_def to_fallback_def relayed_def)
  have rest: "wp (if b = None then finalize e (full_resume e)
      else if fallback_buf_pending b then do {
        r \<leftarrow> flush_slot e u;
        only_if (r = NGX_ERROR) (finalize e (full_resume e)) }
      else do {
        r \<leftarrow> fallback_read_loop e (full_resume e) u NGX_ANYTLS_FALLBACK_READ_BUDGET_LOOPS 0;
        case r of
          None \<Rightarrow> ret ()
        | Some exhausted \<Rightarrow> do {
            armed \<leftarrow> ask (e_rc e);
            if armed \<noteq> NGX_OK then finalize e (full_resume e)
            else only_if exhausted
                   (perform (if u then Eff_post_client_read_next else Eff_post_fallback_read_next)) } })
      (\<lambda>_. relays_reads e u c) c1"
    if "owes [] c c1" "u \<Longrightarrow> c_fallback_replay c1 = None" for b c1
  proof (intro wp_ifI)
    show "wp (State_Monad.bind (flush_slot e u) (\<lambda>r. only_if (r = NGX_ERROR) (finalize e (full_resume e))))
        (\<lambda>_. relays_reads e u c) c1"
      using that(2)
      by (intro flush_slot_relays [OF that(1)]) (auto simp: left_def wp_only_if finalize_reads intro: same)
    show "wp (do {
        r \<leftarrow> fallback_read_loop e (full_resume e) u NGX_ANYTLS_FALLBACK_READ_BUDGET_LOOPS 0;
        case r of
          None \<Rightarrow> ret ()
        | Some exhausted \<Rightarrow> do {
            armed \<leftarrow> ask (e_rc e);
            if armed \<noteq> NGX_OK then finalize e (full_resume e)
            else only_if exhausted
                   (perform (if u then Eff_post_client_read_next else Eff_post_fallback_read_next)) } })
        (\<lambda>_. relays_reads e u c) c1"
      unfolding wp_bind [of "fallback_read_loop _ _ _ _ _"] wp_case_option wp_ret
    proof (rule wp_mono [OF read_loop_reads [OF none [OF that(1)] that(2)]])
      fix r c2
      assume "relays_reads e u c c2"
      then show "case r of None \<Rightarrow> relays_reads e u c c2
        | Some exhausted \<Rightarrow> wp (State_Monad.bind (ask (e_rc e)) (\<lambda>armed.
            if armed \<noteq> NGX_OK then finalize e (full_resume e)
            else only_if exhausted (perform (if u then Eff_post_client_read_next else Eff_post_fallback_read_next))))
            (\<lambda>_. relays_reads e u c) c2"
        by (cases r) (simp_all only: option.case, rule rearm, simp_all)
    qed
  qed (rule finalize_reads)
  show ?thesis
    unfolding fallback_read_def wp_bind [of "gets _"] wp_gets
  proof (rule wp_ifI [OF finalize_reads], rule wp_ifI [OF arm_or_finalize_reads [OF start]],
      unfold wp_bind [of "fallback_get_buf _ _"], rule wp_mono [OF got], rule rest)
    fix c1
    assume "\<not> (u \<and> c_fallback_replay c \<noteq> None)" "owes [] c c1 \<and> c_fallback_replay c1 = c_fallback_replay c"
    then show "owes [] c c1" "u \<Longrightarrow> c_fallback_replay c1 = None" by simp_all
  qed
qed

section \<open>The order towards the fallback server\<close>

text \<open>
  C7: once the connection fell back, a write event keeps the bytes owed to the fallback server:
  what was relayed, then the rest of the replay, then the rest of the client's buffer. A read
  event from the client puts the bytes of its reads behind them; a read event from the fallback
  server adds none. The session may also end.
\<close>

theorem fallback_order:
  "(let c' = snd (run_state (fallback_write e (full_resume e) is_client timedout) c)
    in c_closing c' \<or> to_fallback c' = to_fallback c)
   \<and> (let c' = snd (run_state (fallback_read e (full_resume e) True) c)
      in c_closing c' \<or> (\<exists>ts. to_fallback c' = to_fallback c @ reads e ts
                           \<and> c_received c' = c_received c + length (reads e ts)))
   \<and> (let c' = snd (run_state (fallback_read e (full_resume e) False) c)
      in c_closing c' \<or> (to_fallback c' = to_fallback c \<and> c_received c' = c_received c))"
  using fallback_write_relays [of e is_client timedout c] fallback_read_reads [of e True c] fallback_read_reads [of e False c]
  by (auto simp: wp_run relays_reads_def incoming_def relays_def owes_def Let_def)

end
