(* ===== verification/Upstream_Queues.thy ===== *)
theory Upstream_Queues
  imports Client_Handler
begin

text \<open>
  The queues of the multiplexer towards the targets: set-up, tear-down and the status of a
  stream (\<open>src/src/ngx_anytls_upstream_mux.c\<close>), and the well-formedness that ties
  each queue to the flag of its members.

  A stream is linked into a queue by a node of its own, so a queue must not get a stream
  twice, and a removal of a stream that is in no queue would write through stale links. The
  flags of a stream guard both.
\<close>

section \<open>Set-up, tear-down and status\<close>

definition mux_init :: "rc M" where
  "mux_init = do {
     modify (\<lambda>c. c\<lparr>c_read_ready := [], c_write_ready := [], c_connect_pending := []\<rparr>);
     ret NGX_OK }"

primrec unlink_reads :: "sptr list \<Rightarrow> unit M" where
  "unlink_reads [] = ret ()"
| "unlink_reads (st # sts) = do {
     upd_stream st (\<lambda>s. s\<lparr>st_upstream_read_ready := False\<rparr>);
     modify (\<lambda>c. c\<lparr>c_read_ready := remove1 st (c_read_ready c)\<rparr>);
     unlink_reads sts }"

primrec unlink_writes :: "sptr list \<Rightarrow> unit M" where
  "unlink_writes [] = ret ()"
| "unlink_writes (st # sts) = do {
     upd_stream st (\<lambda>s. s\<lparr>st_upstream_write_ready := False\<rparr>);
     modify (\<lambda>c. c\<lparr>c_write_ready := remove1 st (c_write_ready c)\<rparr>);
     unlink_writes sts }"

primrec unlink_connects :: "sptr list \<Rightarrow> unit M" where
  "unlink_connects [] = ret ()"
| "unlink_connects (st # sts) = do {
     upd_stream st (\<lambda>s. s\<lparr>st_connect_pending := False\<rparr>);
     modify (\<lambda>c. c\<lparr>c_connect_pending := remove1 st (c_connect_pending c)\<rparr>);
     unlink_connects sts }"

definition mux_destroy :: "unit M" where
  "mux_destroy = do {
     sts \<leftarrow> gets c_read_ready;
     unlink_reads sts;
     sts \<leftarrow> gets c_write_ready;
     unlink_writes sts;
     sts \<leftarrow> gets c_connect_pending;
     unlink_connects sts }"

record mux_status =
  ms_is_packet_mode :: bool
  ms_read_blocked :: bool
  ms_can_accept :: bool
  ms_is_closing :: bool

definition mux_stream_status :: "stream \<Rightarrow> mux_status" where
  "mux_stream_status s =
     \<lparr>ms_is_packet_mode = (st_upstream_type s = UPSTREAM_UOT),
      ms_read_blocked = st_upstream_read_blocked s,
      ms_can_accept = (\<not> (st_in_closed s \<or> st_state s = STREAM_CLOSING \<or> st_state s = STREAM_CLOSED)),
      ms_is_closing = (st_closing s \<or> st_state s = STREAM_CLOSING \<or> st_state s = STREAM_CLOSED)\<rparr>"

section \<open>Well-formed queues\<close>

definition linked :: "(sptr \<Rightarrow> bool) \<Rightarrow> sptr list \<Rightarrow> bool" where
  "linked flag q \<longleftrightarrow> distinct q \<and> (\<forall>st. st \<in> set q \<longleftrightarrow> flag st)"

definition queues_linked :: "conn \<Rightarrow> bool" where
  "queues_linked c \<longleftrightarrow>
     linked (\<lambda>st. st_upstream_read_ready (c_mem c st)) (c_read_ready c)
   \<and> linked (\<lambda>st. st_upstream_write_ready (c_mem c st)) (c_write_ready c)
   \<and> linked (\<lambda>st. st_connect_pending (c_mem c st)) (c_connect_pending c)
   \<and> linked (\<lambda>st. st_upstream_read_blocked (c_mem c st)) (c_blocked_upstream_reads c)"

lemma mux_queue_read_linked: "queues_linked c \<Longrightarrow> wp (mux_queue_read st) (\<lambda>_. queues_linked) c"
  by (auto simp: mux_queue_read_def wp_simps queues_linked_def linked_def)

lemma mux_queue_write_linked:
  "queues_linked c \<Longrightarrow> \<not> st_upstream_write_ready (c_mem c st) \<Longrightarrow> wp (mux_queue_write st) (\<lambda>_. queues_linked) c"
  by (auto simp: mux_queue_write_def wp_simps queues_linked_def linked_def)

lemma mux_on_connect_pending_linked: "queues_linked c \<Longrightarrow> wp (mux_on_connect_pending st) (\<lambda>_. queues_linked) c"
  by (auto simp: mux_on_connect_pending_def wp_simps queues_linked_def linked_def)

lemma mux_cancel_connect_linked:
  "queues_linked c \<Longrightarrow> wp (mux_cancel_connect st) (\<lambda>_. queues_linked) c"
  by (auto simp: mux_cancel_connect_def wp_simps queues_linked_def linked_def)

lemma mux_unblock_read_linked: "queues_linked c \<Longrightarrow> wp (mux_unblock_read st) (\<lambda>_. queues_linked) c"
  by (auto simp: mux_unblock_read_def wp_simps queues_linked_def linked_def)

lemma upstream_block_read_linked: "queues_linked c \<Longrightarrow> wp (upstream_block_read e st) (\<lambda>_. queues_linked) c"
  by (auto simp: upstream_block_read_def wp_simps queues_linked_def linked_def)

lemma mux_stream_closing_linked:
  "queues_linked c \<Longrightarrow> wp (mux_stream_closing st) (\<lambda>_ c'. queues_linked c'
     \<and> st \<notin> set (c_read_ready c') \<union> set (c_write_ready c') \<union> set (c_connect_pending c') \<union> set (c_blocked_upstream_reads c')) c"
  by (auto simp: mux_stream_closing_def mux_unblock_read_def mux_cancel_connect_def wp_simps queues_linked_def linked_def)

lemma read_taken_linked:
  "queues_linked c \<Longrightarrow> queues_linked (c\<lparr>c_read_ready := remove1 st (c_read_ready c),
     c_mem := (c_mem c)(st := (c_mem c st)\<lparr>st_upstream_read_ready := False\<rparr>)\<rparr>)"
  by (auto simp: queues_linked_def linked_def)

lemma suspend_reads_loop_linked:
  "queues_linked c \<Longrightarrow> wp (suspend_reads_loop e sts) (\<lambda>_. queues_linked) c"
proof (induction sts arbitrary: c)
  case (Cons st sts)
  note taken = read_taken_linked [OF Cons.prems, of st]
  have blocked: "wp (upstream_block_read e st) (\<lambda>_. wp (suspend_reads_loop e sts) (\<lambda>_. queues_linked)) c1"
    if "queues_linked c1" for c1
    by (rule wp_mono [OF upstream_block_read_linked [OF that] Cons.IH])
  show ?case
    using taken blocked [OF taken] by (simp add: wp_simps Cons.IH)
qed (simp add: wp_ret)

lemma mux_suspend_reads_linked: "queues_linked c \<Longrightarrow> wp (mux_suspend_reads e) (\<lambda>_. queues_linked) c"
  by (simp add: mux_suspend_reads_def wp_simps suspend_reads_loop_linked queues_linked_def)

section \<open>Tear-down\<close>

lemma unlink_reads_empty:
  "queues_linked c \<Longrightarrow> sts = c_read_ready c
    \<Longrightarrow> wp (unlink_reads sts) (\<lambda>_ c'. queues_linked c' \<and> c_read_ready c' = []) c"
proof (induction sts arbitrary: c)
  case (Cons st sts)
  show ?case
    using read_taken_linked [OF Cons.prems(1), of st] Cons.prems(2) [symmetric]
    by (simp add: wp_simps, intro Cons.IH) (auto simp: queues_linked_def linked_def)
qed (simp add: wp_ret)

lemma unlink_writes_empty:
  "queues_linked c \<Longrightarrow> sts = c_write_ready c \<Longrightarrow> c_read_ready c = []
    \<Longrightarrow> wp (unlink_writes sts) (\<lambda>_ c'. queues_linked c' \<and> c_read_ready c' = [] \<and> c_write_ready c' = []) c"
proof (induction sts arbitrary: c)
  case (Cons st sts)
  show ?case
    using Cons.prems(1) Cons.prems(2) [symmetric] Cons.prems(3)
    by (simp add: wp_simps, intro Cons.IH) (auto simp: queues_linked_def linked_def)
qed (simp add: wp_ret)

lemma unlink_connects_empty:
  "queues_linked c \<Longrightarrow> sts = c_connect_pending c \<Longrightarrow> c_read_ready c = [] \<Longrightarrow> c_write_ready c = []
    \<Longrightarrow> wp (unlink_connects sts)
      (\<lambda>_ c'. queues_linked c' \<and> c_read_ready c' = [] \<and> c_write_ready c' = [] \<and> c_connect_pending c' = []) c"
proof (induction sts arbitrary: c)
  case (Cons st sts)
  show ?case
    using Cons.prems(1) Cons.prems(2) [symmetric] Cons.prems(3,4)
    by (simp add: wp_simps, intro Cons.IH) (auto simp: queues_linked_def linked_def)
qed (simp add: wp_ret)

lemma mux_destroy_empty:
  "queues_linked c \<Longrightarrow> wp mux_destroy
     (\<lambda>_ c'. queues_linked c' \<and> c_read_ready c' = [] \<and> c_write_ready c' = [] \<and> c_connect_pending c' = []) c"
  unfolding mux_destroy_def wp_bind wp_gets
  by (rule wp_mono [OF unlink_reads_empty], assumption, rule refl,
      rule wp_mono [OF unlink_writes_empty], blast, rule refl, blast,
      rule unlink_connects_empty) auto

section \<open>Any sequence of operations\<close>

datatype queue_op =
    Op_queue_read sptr | Op_queue_write sptr | Op_connect_pending sptr | Op_cancel_connect sptr
  | Op_block sptr | Op_unblock sptr | Op_suspend | Op_closing sptr

fun queue_step :: "env \<Rightarrow> queue_op \<Rightarrow> unit M" where
  "queue_step e (Op_queue_read st) = mux_queue_read st"
| "queue_step e (Op_queue_write st) = do {
     ready \<leftarrow> sget st st_upstream_write_ready;
     only_if (\<not> ready) (mux_queue_write st) }"
| "queue_step e (Op_connect_pending st) = mux_on_connect_pending st"
| "queue_step e (Op_cancel_connect st) = mux_cancel_connect st"
| "queue_step e (Op_block st) = do { _ \<leftarrow> upstream_block_read e st; ret () }"
| "queue_step e (Op_unblock st) = mux_unblock_read st"
| "queue_step e Op_suspend = mux_suspend_reads e"
| "queue_step e (Op_closing st) = mux_stream_closing st"

primrec queue_steps :: "env \<Rightarrow> queue_op list \<Rightarrow> unit M" where
  "queue_steps e [] = ret ()"
| "queue_steps e (x # xs) = do { queue_step e x; queue_steps e xs }"

lemmas queue_step_rules =
  mux_queue_read_linked mux_queue_write_linked mux_on_connect_pending_linked mux_cancel_connect_linked
  upstream_block_read_linked mux_unblock_read_linked mux_suspend_reads_linked

lemma queue_step_linked: "queues_linked c \<Longrightarrow> wp (queue_step e x) (\<lambda>_. queues_linked) c"
proof (cases x)
  case (Op_closing st)
  then show "queues_linked c \<Longrightarrow> ?thesis"
    using wp_mono [OF mux_stream_closing_linked [of c st]] by auto
qed (simp_all add: queue_step_rules wp_bind wp_ret wp_sget wp_only_if)

lemma queue_steps_linked: "queues_linked c \<Longrightarrow> wp (queue_steps e xs) (\<lambda>_. queues_linked) c"
proof (induction xs arbitrary: c)
  case (Cons x xs)
  then show ?case by (auto simp: wp_bind intro: wp_mono [OF queue_step_linked])
qed (simp add: wp_ret)

lemma mux_init_linked: "wp mux_init (\<lambda>_. queues_linked) (conn_init conf)"
  by (simp add: mux_init_def conn_init_def wp_simps queues_linked_def linked_def stream_zero_def)


end
