(* ===== verification/Spec2Isabelle.thy ===== *)
theory Spec2Isabelle
  imports Config Reject_Http Output_Order Client_Input Empty_Datagram Resend Fallback_Order Upstream_Queues
begin

text \<open>
  Verification of the AnyTLS stream module for nginx.

  The program. The module (\<open>src/src/\<close>) terminates AnyTLS sessions. nginx hands it the
  decrypted byte stream of a client. The client first authenticates with the digest of a
  password and padding; a client that does not is relayed, with all it has sent, to a fallback
  server. After that the stream is a sequence of frames of seven header bytes and a payload.
  The session core turns frames into actions: open a stream, forward a payload, half-close,
  answer a heartbeat, send settings or a new padding scheme. A stream is a TCP connection to a
  target, or a UDP association (UoT) whose datagrams travel as length-prefixed packets. The
  answers of the targets come back as frames in the output towards the client. Both directions
  have backpressure: a full output stops the reading of targets, a full queue towards a target
  stops the reading of the client.

  How the parts are modelled, in the order of their imports.
  \<^item> Prelude: bytes, buffers as lists, return codes, big-endian reads and writes.
  \<^item> Incremental: the contract of a parser that reads a byte stream in pieces (locale
    \<open>incremental_parser\<close>), with the lemma that reading in chunks yields the items of the
    whole. It is interpreted on the frame parser, the SOCKS address parser and the UoT packet
    parser.
  \<^item> Protocol (\<open>ngx_anytls_protocol.c\<close>): frame header, frame parser, the settings lines
    with \<open>ngx_atoi\<close>, the text of a digest.
  \<^item> Padding (\<open>ngx_anytls_padding.c\<close>): the validator of a padding file as the loop of the
    source, and the loader over a file system given as a parameter.
  \<^item> Socksaddr (\<open>ngx_anytls_socksaddr.c\<close>): SOCKS addresses, UoT requests and packets.
  \<^item> Auth (\<open>ngx_anytls_auth.c\<close>): the authentication step, called with each piece of
    input, with its constant-time comparison over all users.
  \<^item> Session_Core (\<open>ngx_anytls_session_core.c\<close>): one frame to at most two actions, and
    the reassembly of a target address cut over several frames
    (\<open>ngx_anytls_session_actions.c\<close>).
  \<^item> Stream_Table (\<open>ngx_anytls_stream.c\<close>, and the sizing in
    \<open>ngx_anytls_connection.c\<close>): the open-addressing table of streams with tombstones.
    The locale \<open>stream_store\<close> is the contract of such a table, interpreted on it.
  \<^item> Upstream_State (\<open>ngx_anytls_upstream_state.c\<close>): the statistics of the targets.
  \<^item> Machine: the record \<open>conn\<close> of a connection with everything it owns, the record
    \<open>stream\<close> (\<open>ngx_anytls_connection_private.h\<close>, \<open>ngx_anytls_stream_private.h\<close>), the
    effects, the environment \<open>env\<close>, the state monad and a weakest precondition
    \<open>wp\<close> with a rule for each primitive.
  \<^item> Lifecycle (\<open>ngx_anytls_stream.c\<close>, parts of other files that a close needs): creation,
    lookup and the two phases of the close of a stream, the buffer caches.
  \<^item> Client_Mux (\<open>ngx_anytls_client_mux.c\<close>, \<open>ngx_anytls_connection.c\<close>): queueing,
    scheduling, sending and recycling of frames, draining, write timer, the end of a session.
  \<^item> Upstream (\<open>ngx_anytls_upstream.c\<close>, \<open>ngx_anytls_resolver.c\<close>): resolving, connecting,
    the queue of client bytes of a target and its sending.
  \<^item> Uot (\<open>ngx_anytls_uot.c\<close>): packet streams in both directions.
  \<^item> Upstream_Mux (\<open>ngx_anytls_upstream_mux.c\<close>): requests of the session for a stream, the
    drain cycles with their budgets, the events of target sockets and of the resolver.
    Upstream_Queues adds set-up, tear-down and status.
  \<^item> Fallback (\<open>ngx_anytls_fallback.c\<close>): the relay of a client that did not authenticate.
  \<^item> Client_Handler (\<open>ngx_anytls_client_handler.c\<close>, \<open>ngx_anytls_session_actions.c\<close>,
    \<open>ngx_anytls_connection.c\<close>): the processing of client bytes, dispatch of actions, pausing
    and resuming of the input, set-up of a connection.
  \<^item> Config (\<open>ngx_stream_anytls_module.c\<close>, \<open>ngx_anytls_variables.c\<close>): the setters and
    the merge of the configuration, the content handler, the log variables.
  \<^item> Reject_Http (\<open>ngx_anytls_reject_plain_http.c\<close>): the classifier of the first bytes on
    the port, its answer pages and the phase handler.

  State and operations. The C code mutates one object graph per connection. In the model it is
  one record: streams are addresses into the store \<open>c_mem\<close>, intrusive queues and linked
  lists are lists of addresses, chains of buffers are the bytes not yet sent. An operation that
  changes the connection is a value of \<open>'a M\<close>, a state transformer, in the statement order
  of the source; one that only computes is a function; a failure is a return code or a sum. The
  operations that may resume the client input take that call as the argument \<open>resume\<close>,
  because the source reaches it from almost everywhere; Client_Handler closes the knot.

  What nginx, OpenSSL and the system answer is not in the source tree and is a parameter: the
  fields of \<open>env\<close> give the answers of allocations, event calls, sockets, clock and resolver
  as functions of the number of questions asked so far, so that a theorem for all \<open>env\<close> is
  about every possible behaviour. What the code does to the outside is appended to the trace
  \<open>c_trace\<close>.

  Events. \<open>dispatch\<close> (Conn_Order) runs the handler of each event nginx delivers, and
  \<open>reachable\<close> is the inductive set of states of a connection: its set-up, then any events
  in any order while it is open.

  What the lemmas show.
  \<^item> The claims about all states of a connection rest on a tower of locales. \<open>step_order\<close>
    (Machine) fixes a reflexive and transitive relation between states; \<open>out_order\<close>,
    \<open>close_order\<close> (Lifecycle), \<open>mux_order\<close>, \<open>final_order\<close> (Client_Mux),
    \<open>session_order\<close>, \<open>input_order\<close> and \<open>conn_order\<close> (Conn_Order) add, one after the
    other, the few steps the relation must be shown to respect, and prove that then every
    operation and every event respects it. Client_Wire interprets the tower on the bytes written
    to the client, Output_Order on the counters of the output, Client_Input on the depth of the
    recursion, the room in the read buffer and the number of finalizations. A new claim of this
    kind has to show only these steps.
  \<^item> Upstream_Order, Resend, Fallback_Order, Upstream_Queues and Empty_Datagram state what
    single operations do to their data with \<open>wp\<close>: the order of the bytes to a target and to
    a fallback server, the flags of the queues, and the two places where the order is lost.
  \<^item> The parsers have round trips, stability under later bytes, and reference definitions they
    are equal to; the table refines a finite map; the classifier of plain HTTP is equal to a
    grammar; the configuration that is accepted meets what the session relies on.
  \<^item> Example_Run is a concrete environment on which the claims about reachable states are
    evaluated.

  Bounds of the recursion. Loops over input recurse on a number of rounds that the loop cannot
  exceed: \<open>process_frames\<close> on the number of bytes, since a frame has at least seven;
  \<open>schedule_fuel\<close> on the ready streams and their frames; \<open>send_fuel\<close> on the bytes that wait
  for the target, in its queue and in the remnant of the client; the loops of events on the read
  budgets of the source. \<open>client_input_resume\<close> is given two levels, and it is proved that
  the bottom of this recursion (\<open>Eff_unreached\<close>) is never reached from a reachable state. A
  drain cycle over the read queue answers whether it ended: see the last finding below.

  What modelling showed.
  \<^item> An empty datagram on a connected UoT stream queues a header that announces two bytes, and no
    payload, so the client reads all later frames at the wrong place
    (\<open>ngx_anytls_upstream_mux.c:487\<close>; Empty_Datagram).
  \<^item> Marking sent entries may resume the client input in the middle of the loop; the client
    bytes then sent re-enter the sending of the same queue, whose next entry is written twice
    (\<open>ngx_anytls_upstream.c:653\<close>; Resend).
  \<^item> The replay to a fallback server is cut at the size of the authentication buffer (Auth).
  \<^item> A peek buffer full of capital letters is waited on although nothing more can be peeked, and
    a line with a control character is answered differently by its segments (Reject_Http).
  \<^item> A drain cycle over the read queue keeps the successor of the stream it serves; closing may
    take that successor off the queue, and the loop then stays on it
    (\<open>ngx_anytls_upstream_mux.c:396\<close>).

  Not modelled. The transport wrappers (\<open>ngx_anytls_transport_ngx.c\<close>) call one function of
  nginx or the system each: in the model the call is an effect or a question to the environment,
  apart from the opening of a UDP socket and the disarming of a write event, which have branches
  of their own. The allocations of the set-up of a connection are taken to succeed; each failure
  finalizes the session at once. Log calls and \<open>ngx_queue_size\<close>, which serves them, are left
  out. The tables that register directives, variables and handlers with nginx are data of nginx.
  Memory is not freed before the end of a connection (it comes from the pool), so addresses stay
  valid. The unit tests and the fuzz targets are drivers of the functions above.
\<close>

end
